theory Spec2Isabelle
  imports Complex_Main
begin

section \<open>Values: numpy numbers and errors\<close>

text \<open>
  The exceptions that the modelled code can raise. A function that can raise returns
  \<open>error + 'a\<close>, with \<open>Inl\<close> for the exception.
\<close>

datatype error = ValueError | IndexError | TypeError

text \<open>
  A numpy float64 is a finite value, one of the two infinities, or not-a-number. A finite
  value is kept as the real number it denotes: comparisons, \<open>isfinite\<close> and \<open>ceil\<close>
  are exact on floating-point numbers, and the one rounding that occurs, the conversion
  of an integer to float64, is written out below.
\<close>

datatype float64 = Fin real | PInf | NInf | NaN

fun isfinite :: "float64 \<Rightarrow> bool" where
  "isfinite (Fin r) = True"
| "isfinite PInf = False"
| "isfinite NInf = False"
| "isfinite NaN = False"

text \<open>IEEE comparison \<open>a <= b\<close>: false as soon as one side is not-a-number.\<close>

fun f_le :: "float64 \<Rightarrow> float64 \<Rightarrow> bool" where
  "f_le NaN b = False"
| "f_le a NaN = False"
| "f_le NInf b = True"
| "f_le a PInf = True"
| "f_le (Fin a) (Fin b) = (a \<le> b)"
| "f_le PInf b = False"
| "f_le a NInf = False"

text \<open>
  The element of a numeric array: \<open>np.asarray\<close> of a list of Python integers has dtype
  int64, of a list with a float in it float64.
\<close>

datatype npval = I64 int | F64 float64

text \<open>The number of binary digits of a natural number.\<close>

fun bitlen :: "nat \<Rightarrow> nat" where
  "bitlen n = (if n = 0 then 0 else Suc (bitlen (n div 2)))"

declare bitlen.simps [simp del]

text \<open>
  The conversion of an int64 to float64 that numpy applies before it compares an integer
  with a float: the nearest number with 53 significant binary digits, ties to the even
  one. An int64 is below \<open>2^63\<close> in magnitude, so the result is always finite.
\<close>

definition to_f64 :: "int \<Rightarrow> float64" where
  "to_f64 n =
     (let a = nat \<bar>n\<bar>;
          e = bitlen a - 53;
          q = a div 2 ^ e;
          r = a mod 2 ^ e;
          q' = (if 2 ^ e < 2 * r \<or> (2 * r = 2 ^ e \<and> odd q) then q + 1 else q)
      in Fin (of_int (sgn n * int (q' * 2 ^ e))))"

text \<open>
  numpy's \<open>a <= b\<close> on two elements: exact between two integers, IEEE between two floats,
  and after the conversion of the integer when the dtypes differ.
\<close>

fun np_le :: "npval \<Rightarrow> npval \<Rightarrow> bool" where
  "np_le (I64 a) (I64 b) = (a \<le> b)"
| "np_le (F64 a) (F64 b) = f_le a b"
| "np_le (I64 a) (F64 b) = f_le (to_f64 a) b"
| "np_le (F64 a) (I64 b) = f_le a (to_f64 b)"

text \<open>\<open>a >= b\<close> is \<open>b <= a\<close>.\<close>

definition np_ge :: "npval \<Rightarrow> npval \<Rightarrow> bool" where
  "np_ge a b = np_le b a"

section \<open>Arrays and the box prior \<open>logp\<close>\<close>

text \<open>
  The prior receives a single parameter vector or a batch with the parameter dimension
  last. An array of rank one or more is its last-axis vectors (\<open>Item\<close>) under any
  number of leading axes (\<open>Stack\<close>); collapsing the last axis leaves one value per
  \<open>Item\<close>.
\<close>

datatype 'a axes = Item 'a | Stack "'a axes list"

text \<open>Runs a list of computations in order; the first exception ends it.\<close>

fun sequence :: "(error + 'a) list \<Rightarrow> error + 'a list" where
  "sequence [] = Inr []"
| "sequence (c # cs) =
     (case c of
        Inl e \<Rightarrow> Inl e
      | Inr v \<Rightarrow> (case sequence cs of Inl e \<Rightarrow> Inl e | Inr vs \<Rightarrow> Inr (v # vs)))"

text \<open>
  numpy's broadcasting of two one-dimensional operands: equal lengths pair up, an
  operand of length one is repeated, anything else raises ValueError.
\<close>

definition broadcast :: "'a list \<Rightarrow> 'b list \<Rightarrow> error + ('a \<times> 'b) list" where
  "broadcast xs ys =
     (if length xs = length ys then Inr (zip xs ys)
      else if length xs = 1 then Inr (map (\<lambda>y. (hd xs, y)) ys)
      else if length ys = 1 then Inr (map (\<lambda>x. (x, hd ys)) xs)
      else Inl ValueError)"

text \<open>
  An elementwise comparison \<open>x >= b\<close> or \<open>x <= b\<close> of an array with a one-dimensional
  bound: the bound is broadcast against every last-axis vector of \<open>x\<close>.
\<close>

fun compare_last ::
  "(npval \<Rightarrow> npval \<Rightarrow> bool) \<Rightarrow> npval list axes \<Rightarrow> npval list \<Rightarrow> error + bool list axes"
where
  "compare_last f (Item r) b =
     (case broadcast r b of
        Inl e \<Rightarrow> Inl e
      | Inr ps \<Rightarrow> Inr (Item (map (\<lambda>(u, v). f u v) ps)))"
| "compare_last f (Stack rs) b =
     (case sequence (map (\<lambda>r. compare_last f r b) rs) of
        Inl e \<Rightarrow> Inl e
      | Inr rs' \<Rightarrow> Inr (Stack rs'))"

text \<open>
  The elementwise \<open>&\<close> of two boolean arrays. In \<open>logp\<close> both operands carry the
  leading axes of \<open>x\<close>, so only the last axis is broadcast; operands whose leading axes
  differ do not arise there and are reported as ValueError.
\<close>

function and_arrays :: "bool list axes \<Rightarrow> bool list axes \<Rightarrow> error + bool list axes" where
  "and_arrays (Item a) (Item b) =
     (case broadcast a b of
        Inl e \<Rightarrow> Inl e
      | Inr ps \<Rightarrow> Inr (Item (map (\<lambda>(u, v). u \<and> v) ps)))"
| "and_arrays (Stack as) (Stack bs) =
     (if length as = length bs
      then (case sequence (map (\<lambda>(a, b). and_arrays a b) (zip as bs)) of
              Inl e \<Rightarrow> Inl e
            | Inr cs \<Rightarrow> Inr (Stack cs))
      else Inl ValueError)"
| "and_arrays (Item a) (Stack bs) = Inl ValueError"
| "and_arrays (Stack as) (Item b) = Inl ValueError"
  by pat_completeness auto
termination
proof (relation "measure (\<lambda>(a, b). size a)")
  show "wf (measure (\<lambda>(a, b). size a))" by simp
next
  fix as bs :: "bool list axes list" and z a b
  assume "z \<in> set (zip as bs)" and "(a, b) = z"
  then have "a \<in> set as" by (auto dest: set_zip_leftD)
  then have "size a \<le> size_list size as" by (rule size_list_estimation') simp
  then show "((a, b), (Stack as, Stack bs)) \<in> measure (\<lambda>(a, b). size a)" by simp
qed

text \<open>\<open>.all(-1)\<close>: the conjunction along the last axis, one boolean per vector.\<close>

definition all_last :: "bool list axes \<Rightarrow> bool axes" where
  "all_last c = map_axes (list_all id) c"

text \<open>\<open>np.where(c, 0.0, -np.inf)\<close>.\<close>

definition np_where :: "bool axes \<Rightarrow> float64 axes" where
  "np_where c = map_axes (\<lambda>b. if b then Fin 0 else NInf) c"

text \<open>
  \<^verbatim>\<open>
  def logp(x, lo, hi):
      return np.where(((x >= lo) & (x <= hi)).all(-1), 0.0, -np.inf)
  \<close>
\<close>

definition logp :: "npval list axes \<Rightarrow> npval list \<Rightarrow> npval list \<Rightarrow> error + float64 axes" where
  "logp x lo hi =
     (case compare_last np_ge x lo of
        Inl e \<Rightarrow> Inl e
      | Inr ge \<Rightarrow>
          (case compare_last np_le x hi of
             Inl e \<Rightarrow> Inl e
           | Inr le \<Rightarrow>
               (case and_arrays ge le of
                  Inl e \<Rightarrow> Inl e
                | Inr c \<Rightarrow> Inr (np_where (all_last c)))))"

text \<open>
  The prior as the specification words it: a row is inside the box when every
  coordinate lies between its two bounds, both included.
\<close>

definition in_box :: "npval list \<Rightarrow> npval list \<Rightarrow> npval list \<Rightarrow> bool" where
  "in_box lo hi r = list_all (\<lambda>i. np_le (lo ! i) (r ! i) \<and> np_le (r ! i) (hi ! i)) [0..<length r]"

definition box_prior :: "npval list \<Rightarrow> npval list \<Rightarrow> npval list axes \<Rightarrow> float64 axes" where
  "box_prior lo hi x = map_axes (\<lambda>r. if in_box lo hi r then Fin 0 else NInf) x"

text \<open>Every last-axis vector of the array has length \<open>n\<close>.\<close>

fun rows_of_length :: "nat \<Rightarrow> 'a list axes \<Rightarrow> bool" where
  "rows_of_length n (Item r) = (length r = n)"
| "rows_of_length n (Stack rs) = list_all (rows_of_length n) rs"

section \<open>Python numbers in the control loop\<close>

text \<open>
  The autocorrelation length \<open>acl\<close> and the progress total are Python numbers: an
  unbounded \<open>int\<close>, or a float. In \<open>ez_emcee\<close> a finite estimate is converted to an
  \<open>int\<close> at once, so the floats that reach the arithmetic below are the non-finite
  ones; the equations for a finite float are written with exact real arithmetic and are
  never evaluated by the loop.
\<close>

datatype pynum = PyInt int | PyFloat float64

fun to_float :: "pynum \<Rightarrow> float64" where
  "to_float (PyInt k) = Fin (of_int k)"
| "to_float (PyFloat f) = f"

text \<open>
  \<open>np.isfinite\<close> on a Python number. A Python \<open>int\<close> that fits neither int64 nor uint64
  becomes an object array, for which \<open>isfinite\<close> raises TypeError.
\<close>

fun py_isfinite :: "pynum \<Rightarrow> error + bool" where
  "py_isfinite (PyInt k) = (if - (2 ^ 63) \<le> k \<and> k < 2 ^ 64 then Inr True else Inl TypeError)"
| "py_isfinite (PyFloat f) = Inr (isfinite f)"

text \<open>\<open>a < b\<close> and \<open>a > b\<close>: false when one side is not-a-number.\<close>

definition py_lt :: "pynum \<Rightarrow> pynum \<Rightarrow> bool" where
  "py_lt a b = (f_le (to_float a) (to_float b) \<and> \<not> f_le (to_float b) (to_float a))"

definition py_gt :: "pynum \<Rightarrow> pynum \<Rightarrow> bool" where
  "py_gt a b = py_lt b a"

text \<open>
  Python's \<open>max(a, b)\<close> keeps its first argument unless the second compares greater.
\<close>

definition py_max :: "pynum \<Rightarrow> pynum \<Rightarrow> pynum" where
  "py_max a b = (if py_gt b a then b else a)"

text \<open>\<open>n * a\<close> for an \<open>int\<close> \<open>n\<close>.\<close>

fun py_mul :: "int \<Rightarrow> pynum \<Rightarrow> pynum" where
  "py_mul n (PyInt k) = PyInt (n * k)"
| "py_mul n (PyFloat (Fin r)) = PyFloat (Fin (of_int n * r))"
| "py_mul n (PyFloat PInf) = PyFloat (if 0 < n then PInf else if n < 0 then NInf else NaN)"
| "py_mul n (PyFloat NInf) = PyFloat (if 0 < n then NInf else if n < 0 then PInf else NaN)"
| "py_mul n (PyFloat NaN) = PyFloat NaN"

text \<open>\<open>n + a\<close> for an \<open>int\<close> \<open>n\<close>.\<close>

fun py_add :: "int \<Rightarrow> pynum \<Rightarrow> pynum" where
  "py_add n (PyInt k) = PyInt (n + k)"
| "py_add n (PyFloat (Fin r)) = PyFloat (Fin (of_int n + r))"
| "py_add n (PyFloat f) = PyFloat f"

text \<open>
  \<open>.max()\<close> of a one-dimensional numpy array: not-a-number wins over everything, and
  an empty array raises ValueError.
\<close>

definition f_max :: "float64 \<Rightarrow> float64 \<Rightarrow> float64" where
  "f_max a b = (if a = NaN \<or> b = NaN then NaN else if f_le a b then b else a)"

fun np_max :: "float64 list \<Rightarrow> error + float64" where
  "np_max [] = Inl ValueError"
| "np_max (x # xs) = Inr (foldl f_max x xs)"

text \<open>
  \<^verbatim>\<open>
  if np.isfinite(acl):
      acl = max(1, int(np.ceil(acl)))
  \<close>
  applied to the raw estimate, a numpy float64.
\<close>

definition refresh_acl :: "float64 \<Rightarrow> pynum" where
  "refresh_acl raw =
     (case raw of
        Fin r \<Rightarrow> py_max (PyInt 1) (PyInt \<lceil>r\<rceil>)
      | _ \<Rightarrow> PyFloat raw)"

section \<open>The ensemble sampler\<close>

text \<open>
  An ensemble position is an array of shape \<open>(ntemps, nwalkers, ndim)\<close>, read by
  index; the shape is carried by the sampler.
\<close>

type_synonym ensemble = "nat \<Rightarrow> nat \<Rightarrow> nat \<Rightarrow> float64"

record 'g sampler =
  nwalkers :: nat
  ndim :: nat
  ntemps :: nat
  rng :: 'g
  time :: nat
  history :: "ensemble list"
  nprop :: "nat \<Rightarrow> nat"
  nprop_accepted :: "nat \<Rightarrow> nat"

text \<open>
  What \<open>ez_emcee\<close> treats as opaque, each of which may raise:
  the check that the sampler's constructor makes of \<open>nwalkers\<close>, \<open>ndim\<close> and \<open>ntemps\<close>;
  \<open>np.random.uniform(lo, hi, size)\<close>;
  the check that \<open>sample\<close> makes of its starting position before the first iteration;
  the transition of the ensemble by one iteration (bound to the log-likelihood and the
  prior; it returns the new position, the number of accepted proposals per temperature
  and the next state of the random source);
  and the autocorrelation-time estimator (an array of shape \<open>(ntemps, ndim)\<close>, read by
  index).
\<close>

record 'g blackbox =
  construct :: "nat \<Rightarrow> nat \<Rightarrow> nat \<Rightarrow> error option"
  uniform :: "'g \<Rightarrow> npval list \<Rightarrow> npval list \<Rightarrow> nat \<times> nat \<times> nat \<Rightarrow> error + ensemble \<times> 'g"
  sample_start :: "'g \<Rightarrow> ensemble \<Rightarrow> error option"
  kernel :: "'g \<Rightarrow> ensemble \<Rightarrow> error + ensemble \<times> (nat \<Rightarrow> nat) \<times> 'g"
  autocorr :: "'g sampler \<Rightarrow> error + (nat \<Rightarrow> nat \<Rightarrow> float64)"

text \<open>A sampler that has taken no iteration and retained nothing.\<close>

definition new_sampler :: "nat \<Rightarrow> nat \<Rightarrow> nat \<Rightarrow> 'g \<Rightarrow> 'g sampler" where
  "new_sampler nw nd nt g =
     \<lparr>nwalkers = nw, ndim = nd, ntemps = nt, rng = g, time = 0, history = [],
      nprop = (\<lambda>t. 0), nprop_accepted = (\<lambda>t. 0)\<rparr>"

text \<open>
  Modelled from the spec: the class \<open>Sampler\<close> of \<open>ptemcee\<close>, which \<open>ez_emcee\<close>
  imports and which is not among the sources. Section 6 of the specification gives its
  contract: construction from \<open>nwalkers\<close>, \<open>ndim\<close>, \<open>ntemps\<close> and a random source;
  \<open>sample\<close>, which advances the ensemble one iteration at a time and retains each new
  position when asked to; \<open>reset\<close>, which clears the history and the counters; and
  the properties \<open>time\<close> (iterations since the last reset), \<open>chain\<close> (the retained
  history, temperature by walker by iteration by dimension), \<open>acceptance_fraction\<close>
  and the autocorrelation estimate. Sections 4.2 and 7 leave the sampler its own
  requirements on the arguments and let its failures reach the caller, so the
  constructor, \<open>sample\<close> and the estimator can raise.
\<close>

definition Sampler :: "'g blackbox \<Rightarrow> nat \<Rightarrow> nat \<Rightarrow> nat \<Rightarrow> 'g \<Rightarrow> error + 'g sampler" where
  "Sampler bb nw nd nt g =
     (case construct bb nw nd nt of
        Some e \<Rightarrow> Inl e
      | None \<Rightarrow> Inr (new_sampler nw nd nt g))"

text \<open>Modelled from the spec: one iteration of \<open>sample\<close>, with or without retention.\<close>

definition sample_step ::
  "'g blackbox \<Rightarrow> bool \<Rightarrow> 'g sampler \<times> ensemble \<Rightarrow> error + 'g sampler \<times> ensemble" where
  "sample_step bb storechain sp =
     (case sp of (s, p) \<Rightarrow>
        (case kernel bb (rng s) p of
           Inl e \<Rightarrow> Inl e
         | Inr (p', acc, g') \<Rightarrow>
             Inr (s\<lparr>rng := g',
                    time := Suc (time s),
                    history := (if storechain then history s @ [p'] else history s),
                    nprop := (\<lambda>t. nprop s t + nwalkers s),
                    nprop_accepted := (\<lambda>t. nprop_accepted s t + acc t)\<rparr>,
                  p')))"

text \<open>Modelled from the spec: \<open>reset\<close>.\<close>

definition reset :: "'g sampler \<Rightarrow> 'g sampler" where
  "reset s = s\<lparr>time := 0, history := [], nprop := (\<lambda>t. 0), nprop_accepted := (\<lambda>t. 0)\<rparr>"

text \<open>
  Modelled from the spec: the property \<open>chain\<close>, of shape
  \<open>(ntemps, nwalkers, iterations retained, ndim)\<close>.
\<close>

definition sampler_chain :: "'g sampler \<Rightarrow> float64 list list list list" where
  "sampler_chain s =
     map (\<lambda>t. map (\<lambda>w. map (\<lambda>p. map (\<lambda>d. p t w d) [0..<ndim s]) (history s))
                 [0..<nwalkers s])
         [0..<ntemps s]"

text \<open>
  Modelled from the spec: the property \<open>acceptance_fraction\<close>, per temperature; the
  quotient of two zero counters is not-a-number.
\<close>

definition acceptance_fraction :: "'g sampler \<Rightarrow> nat \<Rightarrow> float64" where
  "acceptance_fraction s t =
     (if nprop s t = 0 then NaN else Fin (real (nprop_accepted s t) / real (nprop s t)))"

text \<open>
  Modelled from the spec: \<open>get_autocorr_time()\<close>, the estimate per temperature and
  dimension.
\<close>

definition get_autocorr_time :: "'g blackbox \<Rightarrow> 'g sampler \<Rightarrow> error + float64 list list" where
  "get_autocorr_time bb s =
     (case autocorr bb s of
        Inl e \<Rightarrow> Inl e
      | Inr a \<Rightarrow> Inr (map (\<lambda>t. map (\<lambda>d. a t d) [0..<ndim s]) [0..<ntemps s]))"

text \<open>Indexing the first axis with \<open>[0]\<close> raises IndexError on an empty axis.\<close>

fun first_row :: "'a list \<Rightarrow> error + 'a" where
  "first_row [] = Inl IndexError"
| "first_row (x # xs) = Inr x"

section \<open>The progress bar\<close>

record progress =
  prog_total :: pynum
  prog_n :: nat
  prog_desc :: string
  prog_postfix :: "(pynum \<times> float64) option"

definition tqdm :: "pynum \<Rightarrow> progress" where
  "tqdm tot = \<lparr>prog_total = tot, prog_n = 0, prog_desc = [], prog_postfix = None\<rparr>"

definition update :: "progress \<Rightarrow> progress" where
  "update pr = pr\<lparr>prog_n := Suc (prog_n pr)\<rparr>"

section \<open>\<open>ez_emcee\<close>\<close>

record config =
  lo :: "npval list"
  hi :: "npval list"
  nindep :: int
  cfg_ntemps :: nat
  cfg_nwalkers :: "nat option"
  nburnin :: int

text \<open>The local variables of \<open>ez_emcee\<close> that the adaptive loop reads and writes.\<close>

record 'g state =
  sampler :: "'g sampler"
  pos :: ensemble
  acl :: pynum
  nsteps :: nat
  progress :: progress

text \<open>
  The iterations of
  \<^verbatim>\<open>
  for pos, _, _ in sampler.sample(pos, iterations=n, storechain=...):
      progress.update()
  \<close>
\<close>

fun iterations ::
  "'g blackbox \<Rightarrow> nat \<Rightarrow> bool \<Rightarrow> 'g sampler \<times> ensemble \<times> progress
     \<Rightarrow> error + 'g sampler \<times> ensemble \<times> progress" where
  "iterations bb 0 storechain x = Inr x"
| "iterations bb (Suc n) storechain x =
     (case x of (s, p, pr) \<Rightarrow>
        (case sample_step bb storechain (s, p) of
           Inl e \<Rightarrow> Inl e
         | Inr (s', p') \<Rightarrow> iterations bb n storechain (s', p', update pr)))"

text \<open>
  The whole \<open>for\<close> statement: \<open>sample\<close> checks its starting position when the loop
  asks for the first item, also when there is no iteration to run.
\<close>

definition sample_loop ::
  "'g blackbox \<Rightarrow> nat \<Rightarrow> bool \<Rightarrow> 'g sampler \<times> ensemble \<times> progress
     \<Rightarrow> error + 'g sampler \<times> ensemble \<times> progress" where
  "sample_loop bb n storechain x =
     (case x of (s, p, pr) \<Rightarrow>
        (case sample_start bb (rng s) p of
           Some e \<Rightarrow> Inl e
         | None \<Rightarrow> iterations bb n storechain x))"

text \<open>
  \<^verbatim>\<open>
  if nwalkers is None:
      nwalkers = 4 * ndim
  \<close>
\<close>

definition walkers :: "config \<Rightarrow> nat" where
  "walkers cfg = (case cfg_nwalkers cfg of None \<Rightarrow> 4 * length (lo cfg) | Some w \<Rightarrow> w)"

text \<open>
  Lines 90 to 104: the progress bar, the sampler and the initial position. The sampler
  is constructed before the position is drawn.
\<close>

definition start :: "'g blackbox \<Rightarrow> config \<Rightarrow> 'g \<Rightarrow> error + 'g sampler \<times> ensemble \<times> progress" where
  "start bb cfg g =
     (let nd = length (lo cfg);
          nw = walkers cfg;
          pr = tqdm (PyInt (nburnin cfg + nindep cfg * 64))
      in case Sampler bb nw nd (cfg_ntemps cfg) g of
           Inl e \<Rightarrow> Inl e
         | Inr s \<Rightarrow>
             (case uniform bb (rng s) (lo cfg) (hi cfg) (cfg_ntemps cfg, nw, nd) of
                Inl e \<Rightarrow> Inl e
              | Inr (p0, g') \<Rightarrow> Inr (s\<lparr>rng := g'\<rparr>, p0, pr)))"

text \<open>
  Lines 106 to 110: the burn-in, without retention. A burn-in count that is not positive
  gives no iteration, as a Python \<open>range\<close> does.
\<close>

definition burn_phase ::
  "'g blackbox \<Rightarrow> config \<Rightarrow> 'g sampler \<times> ensemble \<times> progress
     \<Rightarrow> error + 'g sampler \<times> ensemble \<times> progress" where
  "burn_phase bb cfg x =
     (case x of (s, p0, pr) \<Rightarrow>
        sample_loop bb (nat (nburnin cfg)) False (s, p0, pr\<lparr>prog_desc := ''Burning in''\<rparr>))"

text \<open>
  Lines 90 to 113: set-up and burn-in, then \<open>sampler.reset()\<close> and \<open>acl = np.nan\<close>,
  with \<open>nsteps = 64\<close> from line 97.
\<close>

definition burn_in :: "'g blackbox \<Rightarrow> config \<Rightarrow> 'g \<Rightarrow> error + 'g state" where
  "burn_in bb cfg g =
     (case start bb cfg g of
        Inl e \<Rightarrow> Inl e
      | Inr x \<Rightarrow>
          (case burn_phase bb cfg x of
             Inl e \<Rightarrow> Inl e
           | Inr (s, p, pr) \<Rightarrow>
               Inr \<lparr>sampler = reset s, pos = p, acl = PyFloat NaN, nsteps = 64,
                    progress = pr\<rparr>))"

text \<open>
  The condition of the \<open>while\<close> loop:
  \<^verbatim>\<open>not np.isfinite(acl) or sampler.time < nindep * acl\<close>
\<close>

definition loop_cond :: "config \<Rightarrow> 'g state \<Rightarrow> error + bool" where
  "loop_cond cfg st =
     (case py_isfinite (acl st) of
        Inl e \<Rightarrow> Inl e
      | Inr fin \<Rightarrow>
          Inr (\<not> fin
               \<or> py_lt (PyInt (int (time (sampler st)))) (py_mul (nindep cfg) (acl st))))"

text \<open>
  \<^verbatim>\<open>progress.total = nburnin + max(sampler.time + nsteps, nindep * acl)\<close>
\<close>

definition revised_total :: "config \<Rightarrow> 'g state \<Rightarrow> pynum" where
  "revised_total cfg st =
     py_add (nburnin cfg)
       (py_max (PyInt (int (time (sampler st)) + int (nsteps st)))
               (py_mul (nindep cfg) (acl st)))"

text \<open>
  \<^verbatim>\<open>acl = sampler.get_autocorr_time()[0].max()\<close>
\<close>

definition raw_acl :: "'g blackbox \<Rightarrow> 'g sampler \<Rightarrow> error + float64" where
  "raw_acl bb s =
     (case get_autocorr_time bb s of
        Inl e \<Rightarrow> Inl e
      | Inr tab \<Rightarrow>
          (case first_row tab of
             Inl e \<Rightarrow> Inl e
           | Inr row \<Rightarrow> np_max row))"

text \<open>One pass through the body of the \<open>while\<close> loop, lines 116 to 135.\<close>

definition adaptive_round :: "'g blackbox \<Rightarrow> config \<Rightarrow> 'g state \<Rightarrow> error + 'g state" where
  "adaptive_round bb cfg st =
     (let pr = (progress st)\<lparr>prog_total := revised_total cfg st, prog_desc := ''Sampling''\<rparr>
      in case sample_loop bb (nsteps st) True (sampler st, pos st, pr) of
           Inl e \<Rightarrow> Inl e
         | Inr (s, p, pr') \<Rightarrow>
             (case raw_acl bb s of
                Inl e \<Rightarrow> Inl e
              | Inr raw \<Rightarrow>
                  (let a = refresh_acl raw;
                       accept = acceptance_fraction s 0
                   in Inr \<lparr>sampler = s, pos = p, acl = a, nsteps = nsteps st * 2,
                           progress = pr'\<lparr>prog_desc := ''Checking'',
                                          prog_postfix := Some (a, accept)\<rparr>\<rparr>)))"

text \<open>
  The \<open>while\<close> loop. It has no bound of its own, so the model takes a number of rounds
  it may run: \<open>None\<close> says that this number was used up with the condition still true.
\<close>

fun loop :: "nat \<Rightarrow> 'g blackbox \<Rightarrow> config \<Rightarrow> 'g state \<Rightarrow> (error + 'g state) option" where
  "loop 0 bb cfg st =
     (case loop_cond cfg st of
        Inl e \<Rightarrow> Some (Inl e)
      | Inr c \<Rightarrow> (if c then None else Some (Inr st)))"
| "loop (Suc n) bb cfg st =
     (case loop_cond cfg st of
        Inl e \<Rightarrow> Some (Inl e)
      | Inr c \<Rightarrow>
          (if c
           then (case adaptive_round bb cfg st of
                   Inl e \<Rightarrow> Some (Inl e)
                 | Inr st' \<Rightarrow> loop n bb cfg st')
           else Some (Inr st)))"

text \<open>
  A Python slice \<open>xs[::k]\<close>: every \<open>k\<close>-th element from the first one for a positive
  step, from the last one backwards for a negative step; a zero step raises ValueError
  and a step that is not an integer raises TypeError.
\<close>

definition every :: "nat \<Rightarrow> 'a list \<Rightarrow> 'a list" where
  "every k xs = map (\<lambda>j. xs ! (j * k)) [0..<(length xs + k - 1) div k]"

definition slice_step :: "pynum \<Rightarrow> 'a list \<Rightarrow> error + 'a list" where
  "slice_step a xs =
     (case a of
        PyFloat f \<Rightarrow> Inl TypeError
      | PyInt k \<Rightarrow>
          (if k = 0 then Inl ValueError
           else if 0 < k then Inr (every (nat k) xs)
           else Inr (every (nat (- k)) (rev xs))))"

text \<open>
  \<open>chain.reshape((-1, s[-1]))\<close> of an array of shape \<open>(nwalkers, m, ndim)\<close>: the rows
  of all walkers one after the other. With \<open>ndim = 0\<close> numpy cannot infer the number of
  rows and raises ValueError.
\<close>

definition reshape_rows :: "nat \<Rightarrow> 'a list list list \<Rightarrow> error + 'a list list" where
  "reshape_rows nd c = (if nd = 0 then Inl ValueError else Inr (concat c))"

text \<open>
  Lines 137 to 139:
  \<^verbatim>\<open>
  chain = sampler.chain[0, :, ::acl, :]
  s = chain.shape
  return chain.reshape((-1, s[-1]))
  \<close>
\<close>

definition thin_and_flatten :: "'g state \<Rightarrow> error + float64 list list" where
  "thin_and_flatten st =
     (case first_row (sampler_chain (sampler st)) of
        Inl e \<Rightarrow> Inl e
      | Inr c0 \<Rightarrow>
          (case sequence (map (slice_step (acl st)) c0) of
             Inl e \<Rightarrow> Inl e
           | Inr thinned \<Rightarrow> reshape_rows (ndim (sampler st)) thinned))"

definition ez_emcee ::
  "nat \<Rightarrow> 'g blackbox \<Rightarrow> config \<Rightarrow> 'g \<Rightarrow> (error + float64 list list) option" where
  "ez_emcee fuel bb cfg g =
     (case burn_in bb cfg g of
        Inl e \<Rightarrow> Some (Inl e)
      | Inr st0 \<Rightarrow>
          (case loop fuel bb cfg st0 of
             None \<Rightarrow> None
           | Some (Inl e) \<Rightarrow> Some (Inl e)
           | Some (Inr st) \<Rightarrow> Some (thin_and_flatten st)))"

section \<open>Notions used to state the properties\<close>

text \<open>
  The random source and the position after \<open>n\<close> iterations of the ensemble from a
  given start, when none of them raises.
\<close>

fun kernel_iter :: "'g blackbox \<Rightarrow> nat \<Rightarrow> 'g \<times> ensemble \<Rightarrow> error + 'g \<times> ensemble" where
  "kernel_iter bb 0 x = Inr x"
| "kernel_iter bb (Suc n) x =
     (case x of (g, p) \<Rightarrow>
        (case kernel bb g p of
           Inl e \<Rightarrow> Inl e
         | Inr (p', acc, g') \<Rightarrow> kernel_iter bb n (g', p')))"

text \<open>The state after \<open>k\<close> passes through the body of the \<open>while\<close> loop.\<close>

fun rounds :: "nat \<Rightarrow> 'g blackbox \<Rightarrow> config \<Rightarrow> 'g state \<Rightarrow> error + 'g state" where
  "rounds 0 bb cfg st = Inr st"
| "rounds (Suc k) bb cfg st =
     (case adaptive_round bb cfg st of
        Inl e \<Rightarrow> Inl e
      | Inr st' \<Rightarrow> rounds k bb cfg st')"

text \<open>
  The values \<open>acl\<close> takes in \<open>ez_emcee\<close>: an \<open>int\<close> that is at least one, or a float
  that is not finite.
\<close>

fun acl_ok :: "pynum \<Rightarrow> bool" where
  "acl_ok (PyInt k) = (1 \<le> k)"
| "acl_ok (PyFloat f) = (\<not> isfinite f)"

section \<open>Example inputs\<close>

text \<open>
  A sampler that takes an even number of walkers and whose random source is a counter:
  an iteration moves the walker \<open>w\<close> at temperature \<open>t\<close> to the coordinates
  \<open>1000 t + 100 w + 10 d + g\<close>, where \<open>g\<close> is the counter, and accepts one proposal
  per temperature. The autocorrelation estimate is the table \<open>est\<close>, and the initial
  draw raises ValueError when the bounds cannot be broadcast to \<open>ndim\<close> columns.
\<close>

definition bb_est :: "(nat \<Rightarrow> nat \<Rightarrow> float64) \<Rightarrow> nat blackbox" where
  "bb_est est =
     \<lparr>construct = (\<lambda>nw nd nt. if odd nw then Some ValueError else None),
      uniform = (\<lambda>g l h shp.
         if length h = length l \<or> length h = 1 then Inr ((\<lambda>t w d. Fin 0), g)
         else Inl ValueError),
      sample_start = (\<lambda>g p. None),
      kernel = (\<lambda>g p. Inr ((\<lambda>t w d. Fin (real (1000 * t + 100 * w + 10 * d + g))),
                            (\<lambda>t. 1), Suc g)),
      autocorr = (\<lambda>s. Inr est)\<rparr>"

text \<open>
  Estimates 5/2 and 31/2 for the two dimensions at the coldest temperature and 100 at
  the others; estimates of which one at the coldest temperature is not-a-number; and
  estimates that are all not-a-number.
\<close>

definition est_ex :: "nat \<Rightarrow> nat \<Rightarrow> float64" where
  "est_ex t d = (if t = 0 then (if d = 0 then Fin (5 / 2) else Fin (31 / 2)) else Fin 100)"

definition est_nan :: "nat \<Rightarrow> nat \<Rightarrow> float64" where
  "est_nan t d = (if t = 0 \<and> d = 1 then NaN else Fin 7)"


definition bb_ex :: "nat blackbox" where
  "bb_ex = bb_est est_ex"

definition cfg_ex :: config where
  "cfg_ex = \<lparr>lo = [F64 (Fin 0), F64 (Fin 0)], hi = [F64 (Fin 1), F64 (Fin 1)], nindep = 4,
             cfg_ntemps = 2, cfg_nwalkers = Some 2, nburnin = 3\<rparr>"

text \<open>The same call with \<open>nindep = 0\<close>.\<close>

definition cfg_zero :: config where
  "cfg_zero = cfg_ex\<lparr>nindep := 0\<rparr>"

text \<open>The same call with three walkers, and with upper bounds of length three.\<close>

definition cfg_odd :: config where
  "cfg_odd = cfg_ex\<lparr>cfg_nwalkers := Some 3\<rparr>"

definition cfg_mismatch :: config where
  "cfg_mismatch = cfg_ex\<lparr>hi := [F64 (Fin 1), F64 (Fin 1), F64 (Fin 1)]\<rparr>"

text \<open>The defaults of \<open>ez_emcee\<close> for a one-dimensional box.\<close>

definition cfg_default :: config where
  "cfg_default = \<lparr>lo = [F64 (Fin 0)], hi = [F64 (Fin 1)], nindep = 200, cfg_ntemps = 10,
                  cfg_nwalkers = None, nburnin = 500\<rparr>"

definition pos_zero :: ensemble where
  "pos_zero = (\<lambda>t w d. Fin 0)"

text \<open>
  Loop states: at the first test of the loop condition under \<open>cfg_default\<close>; after
  six rounds with the estimate still not-a-number; after one round with an estimate of
  16; and with an estimate of \<open>2^64\<close>.
\<close>

definition st_first :: "nat state" where
  "st_first = \<lparr>sampler = new_sampler 4 1 10 500, pos = pos_zero, acl = PyFloat NaN, nsteps = 64,
               progress = tqdm (PyInt 13300)\<rparr>"





text \<open>A batch of three points in the plane, and a batch of two points with no coordinate.\<close>

definition x_batch :: "npval list axes" where
  "x_batch = Stack [Item [F64 (Fin 1), F64 (Fin 2)], Item [F64 (Fin 0), F64 NaN],
                    Item [F64 (Fin 3), F64 PInf]]"

definition x_empty :: "npval list axes" where
  "x_empty = Stack [Item [], Item []]"

section \<open>The box prior: lemmas\<close>

lemma sequence_map_Inr:
  "(\<And>x. x \<in> set xs \<Longrightarrow> f x = Inr (g x)) \<Longrightarrow> sequence (map f xs) = Inr (map g xs)"
  by (induction xs) simp_all

lemma broadcast_same_length:
  "length xs = length ys \<Longrightarrow> broadcast xs ys = Inr (zip xs ys)"
  by (simp add: broadcast_def)

lemma compare_last_rows:
  "rows_of_length (length b) x \<Longrightarrow>
   compare_last f x b = Inr (map_axes (\<lambda>r. map (\<lambda>(u, v). f u v) (zip r b)) x)"
proof (induction x)
  case (Item r)
  then show ?case by (simp add: broadcast_same_length)
next
  case (Stack rs)
  have "sequence (map (\<lambda>r. compare_last f r b) rs)
        = Inr (map (map_axes (\<lambda>r. map (\<lambda>(u, v). f u v) (zip r b))) rs)"
    using Stack by (intro sequence_map_Inr) (simp add: list_all_iff)
  then show ?case by simp
qed

lemma and_arrays_rows:
  "rows_of_length n x \<Longrightarrow> (\<And>r. length r = n \<Longrightarrow> length (p r) = length (q r)) \<Longrightarrow>
   and_arrays (map_axes p x) (map_axes q x)
     = Inr (map_axes (\<lambda>r. map (\<lambda>(u, v). u \<and> v) (zip (p r) (q r))) x)"
proof (induction x)
  case (Item r)
  then show ?case by (simp add: broadcast_same_length)
next
  case (Stack rs)
  have "sequence (map (\<lambda>(a, b). and_arrays a b) (zip (map (map_axes p) rs) (map (map_axes q) rs)))
        = sequence (map (\<lambda>r. and_arrays (map_axes p r) (map_axes q r)) rs)"
    by (simp add: zip_map_map zip_same_conv_map comp_def)
  also have "\<dots> = Inr (map (map_axes (\<lambda>r. map (\<lambda>(u, v). u \<and> v) (zip (p r) (q r)))) rs)"
    using Stack by (intro sequence_map_Inr) (simp add: list_all_iff)
  finally show ?case by simp
qed

lemma in_box_zip:
  assumes "length r = length lb" and "length ub = length lb"
  shows "list_all id (map2 (\<and>) (map2 np_ge r lb) (map2 np_le r ub)) = in_box lb ub r"
  using assms by (simp add: in_box_def list_all_length np_ge_def)

lemma set_axes_rows: "rows_of_length n x \<Longrightarrow> r \<in> set_axes x \<Longrightarrow> length r = n"
  by (induction x) (auto simp: list_all_iff)

lemma logp_rows:
  assumes "rows_of_length (length lb) x" and "length ub = length lb"
  shows "logp x lb ub = Inr (box_prior lb ub x)"
proof -
  have ge: "compare_last np_ge x lb = Inr (map_axes (\<lambda>r. map2 np_ge r lb) x)"
    using assms(1) by (rule compare_last_rows)
  have le: "compare_last np_le x ub = Inr (map_axes (\<lambda>r. map2 np_le r ub) x)"
    using assms by (intro compare_last_rows) simp
  have conj: "and_arrays (map_axes (\<lambda>r. map2 np_ge r lb) x) (map_axes (\<lambda>r. map2 np_le r ub) x)
        = Inr (map_axes (\<lambda>r. map2 (\<and>) (map2 np_ge r lb) (map2 np_le r ub)) x)"
    using assms by (intro and_arrays_rows[where n = "length lb"]) simp_all
  have "np_where (all_last (map_axes (\<lambda>r. map2 (\<and>) (map2 np_ge r lb) (map2 np_le r ub)) x))
        = box_prior lb ub x"
    unfolding box_prior_def all_last_def np_where_def axes.map_comp
    using assms by (intro axes.map_cong refl) (simp add: in_box_zip set_axes_rows)
  then show ?thesis
    by (simp add: logp_def ge le conj)
qed

lemma bitlen_eq: "2 ^ k \<le> n \<Longrightarrow> n < 2 ^ Suc k \<Longrightarrow> bitlen n = Suc k"
proof (induction k arbitrary: n)
  case 0
  then have "n = 1" by simp
  then show ?case by (simp add: bitlen.simps)
next
  case (Suc k)
  then have "n \<noteq> 0" "2 ^ k \<le> n div 2" "n div 2 < 2 ^ Suc k" by auto
  with Suc.IH[of "n div 2"] show ?case by (subst bitlen.simps) simp
qed

lemma bitlen_le: "n < 2 ^ k \<Longrightarrow> bitlen n \<le> k"
proof (induction k arbitrary: n)
  case 0
  then show ?case by (subst bitlen.simps) simp
next
  case (Suc k)
  then have "n div 2 < 2 ^ k" by auto
  from Suc.IH[OF this] show ?case by (subst bitlen.simps) simp
qed

lemma to_f64_exact:
  assumes "\<bar>n\<bar> < 2 ^ 53"
  shows "to_f64 n = Fin (of_int n)"
proof -
  from assms have "nat \<bar>n\<bar> < 2 ^ 53" by (simp add: nat_less_iff)
  then have "bitlen (nat \<bar>n\<bar>) - 53 = 0" using bitlen_le by fastforce
  then have "to_f64 n = Fin (of_int (sgn n * int (nat \<bar>n\<bar>)))"
    by (simp add: to_f64_def Let_def)
  also have "sgn n * int (nat \<bar>n\<bar>) = n" by (simp add: mult_sgn_abs)
  finally show ?thesis .
qed

lemma to_f64_example: "to_f64 (2 ^ 53 + 1) = Fin (2 ^ 53)"
proof -
  have "bitlen (nat \<bar>2 ^ 53 + 1 :: int\<bar>) = Suc 53"
    by (rule bitlen_eq) simp_all
  then show ?thesis by (simp add: to_f64_def Let_def)
qed

lemma to_f64_example_numeral: "to_f64 9007199254740993 = Fin 9007199254740992"
  using to_f64_example by simp

section \<open>The sampler and the loop: lemmas\<close>

lemma kernel_iter_add:
  "kernel_iter bb (m + n) x
     = (case kernel_iter bb m x of Inl e \<Rightarrow> Inl e | Inr y \<Rightarrow> kernel_iter bb n y)"
  by (induction m arbitrary: x) (auto split: prod.splits sum.splits)

lemma iterations_result:
  "iterations bb n storechain (s, p, pr) = Inr (s', p', pr') \<Longrightarrow>
     kernel_iter bb n (rng s, p) = Inr (rng s', p')
   \<and> time s' = time s + n
   \<and> nwalkers s' = nwalkers s \<and> ndim s' = ndim s \<and> ntemps s' = ntemps s
   \<and> nprop s' = (\<lambda>t. nprop s t + n * nwalkers s)
   \<and> (\<exists>new. history s' = history s @ new
         \<and> length new = (if storechain then n else 0)
         \<and> (\<forall>j<length new. \<exists>gj. kernel_iter bb (Suc j) (rng s, p) = Inr (gj, new ! j)))
   \<and> pr' = pr\<lparr>prog_n := prog_n pr + n\<rparr>"
proof (induction n arbitrary: s p pr)
  case 0
  then show ?case by simp
next
  case (Suc n)
  from Suc.prems obtain p1 acc g1 where k: "kernel bb (rng s) p = Inr (p1, acc, g1)"
    by (auto simp: sample_step_def split: sum.splits)
  define s1 where "s1 = s\<lparr>rng := g1, time := Suc (time s),
              history := (if storechain then history s @ [p1] else history s),
              nprop := (\<lambda>t. nprop s t + nwalkers s),
              nprop_accepted := (\<lambda>t. nprop_accepted s t + acc t)\<rparr>"
  have step: "sample_step bb storechain (s, p) = Inr (s1, p1)"
    by (simp add: sample_step_def k s1_def)
  from Suc.prems have "iterations bb n storechain (s1, p1, update pr) = Inr (s', p', pr')"
    by (simp add: step)
  from Suc.IH[OF this] obtain new where ih:
    "kernel_iter bb n (rng s1, p1) = Inr (rng s', p')"
    "time s' = time s1 + n" "nwalkers s' = nwalkers s1" "ndim s' = ndim s1" "ntemps s' = ntemps s1"
    "nprop s' = (\<lambda>t. nprop s1 t + n * nwalkers s1)"
    "history s' = history s1 @ new" "length new = (if storechain then n else 0)"
    "\<forall>j<length new. \<exists>gj. kernel_iter bb (Suc j) (rng s1, p1) = Inr (gj, new ! j)"
    "pr' = (update pr)\<lparr>prog_n := prog_n (update pr) + n\<rparr>"
    by blast
  have shift: "kernel_iter bb (Suc j) (rng s, p) = kernel_iter bb j (g1, p1)" for j
    by (simp add: k)
  have g1: "rng s1 = g1" by (simp add: s1_def)
  let ?new = "if storechain then p1 # new else new"
  have h: "history s' = history s @ ?new"
    using ih(7) by (simp add: s1_def)
  have l: "length ?new = (if storechain then Suc n else 0)"
    using ih(8) by simp
  have c: "\<exists>gj. kernel_iter bb (Suc j) (rng s, p) = Inr (gj, ?new ! j)" if "j < length ?new" for j
  proof (cases storechain)
    case False
    with that ih(8) show ?thesis by simp
  next
    case True
    show ?thesis
    proof (cases j)
      case 0
      with True show ?thesis by (simp add: k)
    next
      case (Suc i)
      with that True have "i < length new" by simp
      with ih(9) obtain gi where "kernel_iter bb (Suc i) (rng s1, p1) = Inr (gi, new ! i)"
        by blast
      with True Suc show ?thesis
        unfolding shift g1 by simp
    qed
  qed
  have "kernel_iter bb (Suc n) (rng s, p) = Inr (rng s', p')"
    unfolding shift using ih(1) by (simp add: g1)
  moreover have "time s' = time s + Suc n" "nwalkers s' = nwalkers s" "ndim s' = ndim s"
    "ntemps s' = ntemps s" "nprop s' = (\<lambda>t. nprop s t + Suc n * nwalkers s)"
    "pr' = pr\<lparr>prog_n := prog_n pr + Suc n\<rparr>"
    using ih by (simp_all add: s1_def update_def fun_eq_iff)
  ultimately show ?case using h l c by blast
qed

lemma sample_loop_result:
  assumes "sample_loop bb n storechain (s, p, pr) = Inr (s', p', pr')"
  obtains new where
    "sample_start bb (rng s) p = None"
    "kernel_iter bb n (rng s, p) = Inr (rng s', p')"
    "time s' = time s + n"
    "nwalkers s' = nwalkers s" "ndim s' = ndim s" "ntemps s' = ntemps s"
    "nprop s' = (\<lambda>t. nprop s t + n * nwalkers s)"
    "history s' = history s @ new"
    "length new = (if storechain then n else 0)"
    "\<forall>j<length new. \<exists>gj. kernel_iter bb (Suc j) (rng s, p) = Inr (gj, new ! j)"
    "pr' = pr\<lparr>prog_n := prog_n pr + n\<rparr>"
proof -
  from assms have st: "sample_start bb (rng s) p = None"
    and it: "iterations bb n storechain (s, p, pr) = Inr (s', p', pr')"
    by (auto simp: sample_loop_def split: option.splits)
  from iterations_result[OF it] obtain new where
    "kernel_iter bb n (rng s, p) = Inr (rng s', p')"
    "time s' = time s + n"
    "nwalkers s' = nwalkers s" "ndim s' = ndim s" "ntemps s' = ntemps s"
    "nprop s' = (\<lambda>t. nprop s t + n * nwalkers s)"
    "history s' = history s @ new"
    "length new = (if storechain then n else 0)"
    "\<forall>j<length new. \<exists>gj. kernel_iter bb (Suc j) (rng s, p) = Inr (gj, new ! j)"
    "pr' = pr\<lparr>prog_n := prog_n pr + n\<rparr>"
    by blast
  with st show thesis by (rule that)
qed

lemma start_result:
  assumes "start bb cfg g = Inr (s, p0, pr)"
  obtains g0 where
    "construct bb (walkers cfg) (length (lo cfg)) (cfg_ntemps cfg) = None"
    "uniform bb g (lo cfg) (hi cfg) (cfg_ntemps cfg, walkers cfg, length (lo cfg)) = Inr (p0, g0)"
    "s = new_sampler (walkers cfg) (length (lo cfg)) (cfg_ntemps cfg) g0"
    "pr = tqdm (PyInt (nburnin cfg + nindep cfg * 64))"
  using assms
  by (auto simp: start_def Let_def Sampler_def new_sampler_def split: option.splits sum.splits)

lemma burn_in_result:
  assumes "burn_in bb cfg g = Inr st"
  obtains s0 p0 pr0 s where
    "start bb cfg g = Inr (s0, p0, pr0)"
    "burn_phase bb cfg (s0, p0, pr0) = Inr (s, pos st, progress st)"
    "sampler st = reset s"
    "kernel_iter bb (nat (nburnin cfg)) (rng s0, p0) = Inr (rng s, pos st)"
    "time s = nat (nburnin cfg)" "history s = []"
    "nprop s = (\<lambda>t. nat (nburnin cfg) * walkers cfg)"
    "nwalkers s = walkers cfg" "ndim s = length (lo cfg)" "ntemps s = cfg_ntemps cfg"
    "acl st = PyFloat NaN" "nsteps st = 64"
    "prog_n (progress st) = nat (nburnin cfg)"
    "prog_total (progress st) = PyInt (nburnin cfg + nindep cfg * 64)"
proof -
  from assms obtain s0 p0 pr0 s p pr where
    a: "start bb cfg g = Inr (s0, p0, pr0)"
    and b: "burn_phase bb cfg (s0, p0, pr0) = Inr (s, p, pr)"
    and st: "st = \<lparr>sampler = reset s, pos = p, acl = PyFloat NaN, nsteps = 64, progress = pr\<rparr>"
    by (auto simp: burn_in_def split: sum.splits)
  from start_result[OF a] obtain g0 where
    s0: "s0 = new_sampler (walkers cfg) (length (lo cfg)) (cfg_ntemps cfg) g0"
    and pr0: "pr0 = tqdm (PyInt (nburnin cfg + nindep cfg * 64))" by blast
  from b have l: "sample_loop bb (nat (nburnin cfg)) False
      (s0, p0, pr0\<lparr>prog_desc := ''Burning in''\<rparr>) = Inr (s, p, pr)"
    by (simp add: burn_phase_def)
  from sample_loop_result[OF l] obtain new where r:
    "kernel_iter bb (nat (nburnin cfg)) (rng s0, p0) = Inr (rng s, p)"
    "time s = time s0 + nat (nburnin cfg)"
    "nwalkers s = nwalkers s0" "ndim s = ndim s0" "ntemps s = ntemps s0"
    "nprop s = (\<lambda>t. nprop s0 t + nat (nburnin cfg) * nwalkers s0)"
    "history s = history s0 @ new"
    "length new = (if False then nat (nburnin cfg) else 0)"
    "pr = pr0\<lparr>prog_desc := ''Burning in''\<rparr>\<lparr>prog_n := prog_n (pr0\<lparr>prog_desc := ''Burning in''\<rparr>)
            + nat (nburnin cfg)\<rparr>"
    by blast
  show thesis
  proof (rule that[OF a])
    show "burn_phase bb cfg (s0, p0, pr0) = Inr (s, pos st, progress st)"
      using b by (simp add: st)
    show "kernel_iter bb (nat (nburnin cfg)) (rng s0, p0) = Inr (rng s, pos st)"
      using r(1) by (simp add: st)
  qed (use r in \<open>simp_all add: st s0 pr0 new_sampler_def tqdm_def\<close>)
qed

lemma f_le_refl: "a \<noteq> NaN \<Longrightarrow> f_le a a"
  by (cases a) simp_all

lemma f_le_total: "a \<noteq> NaN \<Longrightarrow> b \<noteq> NaN \<Longrightarrow> \<not> f_le a b \<Longrightarrow> f_le b a"
  by (cases a; cases b) simp_all

lemma f_le_trans: "f_le a b \<Longrightarrow> f_le b c \<Longrightarrow> f_le a c"
  by (cases a; cases b; cases c) simp_all

lemma foldl_f_max:
  "foldl f_max a xs = m \<Longrightarrow>
     (a = NaN \<or> NaN \<in> set xs \<longrightarrow> m = NaN)
   \<and> (a \<noteq> NaN \<and> NaN \<notin> set xs
        \<longrightarrow> m \<in> insert a (set xs) \<and> f_le a m \<and> (\<forall>y\<in>set xs. f_le y m))"
proof (induction xs arbitrary: a)
  case Nil
  then show ?case by (auto simp: f_le_refl)
next
  case (Cons x xs)
  let ?a = "f_max a x"
  from Cons.prems have m: "foldl f_max ?a xs = m" by simp
  note ih = Cons.IH[OF m]
  show ?case
  proof (cases "a = NaN \<or> x = NaN")
    case True
    then have "?a = NaN" by (auto simp: f_max_def)
    with ih True show ?thesis by auto
  next
    case False
    then have a: "?a \<noteq> NaN" "?a = a \<or> ?a = x" "f_le a ?a" "f_le x ?a"
      by (auto simp: f_max_def f_le_refl f_le_total)
    show ?thesis
    proof (cases "NaN \<in> set xs")
      case True
      with ih show ?thesis by auto
    next
      case n: False
      with ih a(1) have r: "m \<in> insert ?a (set xs)" "f_le ?a m" "\<forall>y\<in>set xs. f_le y m"
        by auto
      from r(2) a(3,4) have "f_le a m" "f_le x m" by (blast intro: f_le_trans)+
      with r a(2) n False show ?thesis by auto
    qed
  qed
qed

lemma np_max_result:
  assumes "np_max xs = Inr m"
  shows "xs \<noteq> []" and "NaN \<in> set xs \<Longrightarrow> m = NaN"
    and "NaN \<notin> set xs \<Longrightarrow> m \<in> set xs \<and> (\<forall>y\<in>set xs. f_le y m)"
proof -
  from assms obtain x ys where xs: "xs = x # ys" and f: "foldl f_max x ys = m"
    by (cases xs) auto
  show "xs \<noteq> []" by (simp add: xs)
  show "m = NaN" if "NaN \<in> set xs"
    using foldl_f_max[OF f] that by (auto simp: xs)
  show "m \<in> set xs \<and> (\<forall>y\<in>set xs. f_le y m)" if "NaN \<notin> set xs"
    using foldl_f_max[OF f] that by (auto simp: xs)
qed

lemma raw_acl_result:
  assumes "raw_acl bb s = Inr raw"
  obtains a where "autocorr bb s = Inr a" "0 < ntemps s" "0 < ndim s"
    "np_max (map (a 0) [0..<ndim s]) = Inr raw"
proof -
  from assms obtain a where a: "autocorr bb s = Inr a"
    by (auto simp: raw_acl_def get_autocorr_time_def split: sum.splits)
  from assms a have nt: "0 < ntemps s"
    by (cases "ntemps s") (simp_all add: raw_acl_def get_autocorr_time_def)
  then have "first_row (map (\<lambda>t. map (a t) [0..<ndim s]) [0..<ntemps s])
      = Inr (map (a 0) [0..<ndim s])"
    by (simp add: upt_conv_Cons del: upt_Suc)
  with assms a have m: "np_max (map (a 0) [0..<ndim s]) = Inr raw"
    by (simp add: raw_acl_def get_autocorr_time_def)
  from np_max_result(1)[OF m] have nd: "0 < ndim s" by simp
  from a nt nd m show thesis by (rule that)
qed

lemma raw_acl_total:
  assumes "autocorr bb s = Inr a" and "0 < ntemps s" and "0 < ndim s"
  shows "\<exists>raw. raw_acl bb s = Inr raw"
proof -
  from assms obtain n d where "ntemps s = Suc n" "ndim s = Suc d"
    by (metis gr0_implies_Suc)
  with assms(1) show ?thesis
    by (simp add: raw_acl_def get_autocorr_time_def upt_conv_Cons del: upt_Suc)
qed

lemma py_max_int: "py_max (PyInt a) (PyInt b) = PyInt (max a b)"
  by (auto simp: py_max_def py_gt_def py_lt_def)

lemma py_lt_int: "py_lt (PyInt a) (PyInt b) = (a < b)"
  unfolding py_lt_def to_float.simps f_le.simps of_int_le_iff by auto

lemma refresh_acl_Fin: "refresh_acl (Fin r) = PyInt (max 1 \<lceil>r\<rceil>)"
  by (simp add: refresh_acl_def py_max_int)

lemma refresh_acl_nonfinite: "\<not> isfinite raw \<Longrightarrow> refresh_acl raw = PyFloat raw"
  by (cases raw) (simp_all add: refresh_acl_def)

lemma refresh_acl_ok: "acl_ok (refresh_acl raw)"
  by (cases raw) (simp_all add: refresh_acl_Fin refresh_acl_nonfinite)

lemma adaptive_round_result:
  assumes "adaptive_round bb cfg st = Inr st'"
  obtains raw new where
    "raw_acl bb (sampler st') = Inr raw" "acl st' = refresh_acl raw"
    "kernel_iter bb (nsteps st) (rng (sampler st), pos st) = Inr (rng (sampler st'), pos st')"
    "time (sampler st') = time (sampler st) + nsteps st"
    "nwalkers (sampler st') = nwalkers (sampler st)" "ndim (sampler st') = ndim (sampler st)"
    "ntemps (sampler st') = ntemps (sampler st)"
    "history (sampler st') = history (sampler st) @ new"
    "length new = nsteps st"
    "\<forall>j<length new. \<exists>gj. kernel_iter bb (Suc j) (rng (sampler st), pos st) = Inr (gj, new ! j)"
    "nsteps st' = nsteps st * 2"
    "prog_total (progress st') = revised_total cfg st"
    "prog_n (progress st') = prog_n (progress st) + nsteps st"
proof -
  let ?pr = "(progress st)\<lparr>prog_total := revised_total cfg st, prog_desc := ''Sampling''\<rparr>"
  from assms obtain s p pr' raw where
    l: "sample_loop bb (nsteps st) True (sampler st, pos st, ?pr) = Inr (s, p, pr')"
    and raw: "raw_acl bb s = Inr raw"
    and st': "st' = \<lparr>sampler = s, pos = p, acl = refresh_acl raw, nsteps = nsteps st * 2,
        progress = pr'\<lparr>prog_desc := ''Checking'',
           prog_postfix := Some (refresh_acl raw, acceptance_fraction s 0)\<rparr>\<rparr>"
    by (auto simp: adaptive_round_def Let_def split: sum.splits)
  from sample_loop_result[OF l] obtain new where r:
    "kernel_iter bb (nsteps st) (rng (sampler st), pos st) = Inr (rng s, p)"
    "time s = time (sampler st) + nsteps st"
    "nwalkers s = nwalkers (sampler st)" "ndim s = ndim (sampler st)"
    "ntemps s = ntemps (sampler st)"
    "history s = history (sampler st) @ new"
    "length new = (if True then nsteps st else 0)"
    "\<forall>j<length new. \<exists>gj. kernel_iter bb (Suc j) (rng (sampler st), pos st) = Inr (gj, new ! j)"
    "pr' = ?pr\<lparr>prog_n := prog_n ?pr + nsteps st\<rparr>"
    by blast
  show thesis
  proof (rule that[of raw new])
    show "kernel_iter bb (nsteps st) (rng (sampler st), pos st) = Inr (rng (sampler st'), pos st')"
      using r(1) by (simp add: st')
    show "\<forall>j<length new. \<exists>gj. kernel_iter bb (Suc j) (rng (sampler st), pos st) = Inr (gj, new ! j)"
      by (rule r(8))
  qed (use r raw in \<open>simp_all add: st'\<close>)
qed

lemma loop_cond_nonfinite:
  "acl st = PyFloat f \<Longrightarrow> \<not> isfinite f \<Longrightarrow> loop_cond cfg st = Inr True"
  by (simp add: loop_cond_def)

lemma loop_cond_int:
  "acl st = PyInt k \<Longrightarrow> - (2 ^ 63) \<le> k \<Longrightarrow> k < 2 ^ 64
   \<Longrightarrow> loop_cond cfg st = Inr (int (time (sampler st)) < nindep cfg * k)"
  by (simp add: loop_cond_def py_lt_int)


lemma loop_cond_False:
  assumes "loop_cond cfg st = Inr False" and "acl_ok (acl st)"
  obtains k where "acl st = PyInt (int k)" "0 < k" "int k < 2 ^ 64"
    "nindep cfg * int k \<le> int (time (sampler st))"
proof (cases "acl st")
  case (PyFloat f)
  with assms show ?thesis by (simp add: loop_cond_def)
next
  case (PyInt i)
  with assms have i: "1 \<le> i" "i < 2 ^ 64"
    by (auto simp: loop_cond_def split: if_splits)
  with assms(1) PyInt have "\<not> int (time (sampler st)) < nindep cfg * i"
    by (simp add: loop_cond_int)
  with i PyInt show ?thesis by (intro that[of "nat i"]) simp_all
qed

lemma loop_invariant:
  assumes "loop fuel bb cfg st = Some (Inr st')" and "P st"
    and "\<And>a b. P a \<Longrightarrow> loop_cond cfg a = Inr True \<Longrightarrow> adaptive_round bb cfg a = Inr b \<Longrightarrow> P b"
  shows "P st' \<and> loop_cond cfg st' = Inr False"
  using assms(1,2)
proof (induction fuel arbitrary: st)
  case 0
  then show ?case by (auto split: sum.splits if_splits)
next
  case (Suc n)
  from Suc.prems(1) obtain c where c: "loop_cond cfg st = Inr c"
    by (auto split: sum.splits)
  show ?case
  proof (cases c)
    case False
    with Suc.prems c show ?thesis by simp
  next
    case True
    with Suc.prems c obtain b where b: "adaptive_round bb cfg st = Inr b"
      and l: "loop n bb cfg b = Some (Inr st')"
      by (auto split: sum.splits)
    from True c have "loop_cond cfg st = Inr True" by simp
    from assms(3)[OF Suc.prems(2) this b] have "P b" .
    from Suc.IH[OF l this] show ?thesis .
  qed
qed

lemma loop_rounds:
  "loop fuel bb cfg st = Some (Inr st') \<Longrightarrow> \<exists>k\<le>fuel. rounds k bb cfg st = Inr st'"
proof (induction fuel arbitrary: st)
  case 0
  then have "rounds 0 bb cfg st = Inr st'" by (auto split: sum.splits if_splits)
  then show ?case by blast
next
  case (Suc n)
  from Suc.prems obtain c where c: "loop_cond cfg st = Inr c"
    by (auto split: sum.splits)
  show ?case
  proof (cases c)
    case False
    with Suc.prems c have "rounds 0 bb cfg st = Inr st'" by simp
    then show ?thesis by blast
  next
    case True
    with Suc.prems c obtain b where b: "adaptive_round bb cfg st = Inr b"
      and l: "loop n bb cfg b = Some (Inr st')"
      by (auto split: sum.splits)
    from Suc.IH[OF l] obtain k where "k \<le> n" "rounds k bb cfg b = Inr st'" by blast
    with b have "Suc k \<le> Suc n" "rounds (Suc k) bb cfg st = Inr st'" by simp_all
    then show ?thesis by blast
  qed
qed

lemma rounds_result:
  "rounds k bb cfg st0 = Inr st \<Longrightarrow>
     nsteps st = nsteps st0 * 2 ^ k
   \<and> time (sampler st) = time (sampler st0) + nsteps st0 * (2 ^ k - 1)"
proof (induction k arbitrary: st0)
  case 0
  then show ?case by simp
next
  case (Suc k)
  then obtain b where b: "adaptive_round bb cfg st0 = Inr b" and r: "rounds k bb cfg b = Inr st"
    by (auto split: sum.splits)
  from adaptive_round_result[OF b] have
    s: "nsteps b = nsteps st0 * 2" and t: "time (sampler b) = time (sampler st0) + nsteps st0"
    by metis+
  have p: "(1::nat) \<le> 2 ^ k" by simp
  from Suc.IH[OF r] s t have "nsteps st = nsteps st0 * 2 ^ Suc k"
    and "time (sampler st) = time (sampler st0) + nsteps st0 + nsteps st0 * 2 * (2 ^ k - 1)"
    by simp_all
  moreover have "nsteps st0 + nsteps st0 * 2 * (2 ^ k - 1) = nsteps st0 * (2 ^ Suc k - 1)"
    using p by (simp add: algebra_simps)
  ultimately show ?case by simp
qed

lemma every_length: "length (every k xs) = (length xs + k - 1) div k"
  by (simp add: every_def)

lemma every_index: "0 < k \<Longrightarrow> j < (n + k - 1) div k \<Longrightarrow> j * k < (n::nat)"
proof -
  assume k: "0 < k" and j: "j < (n + k - 1) div k"
  then have "Suc j \<le> (n + k - 1) div k" by simp
  with k have "Suc j * k \<le> n + k - 1" by (simp add: less_eq_div_iff_mult_less_eq)
  with k show ?thesis by simp
qed

lemma every_subset: "0 < k \<Longrightarrow> set (every k xs) \<subseteq> set xs"
  by (auto simp: every_def dest: every_index)

lemma thin_bounds:
  fixes n k :: nat
  assumes "0 < k"
  shows "n \<le> (n + k - 1) div k * k" and "(n + k - 1) div k * k < n + k"
proof -
  have eq: "(n + k - 1) div k * k + (n + k - 1) mod k = n + k - 1" by simp
  have "(n + k - 1) mod k < k" using assms by simp
  with eq show "n \<le> (n + k - 1) div k * k" and "(n + k - 1) div k * k < n + k"
    using assms by linarith+
qed

lemma ceil_div_nat:
  assumes "0 < k"
  shows "\<lceil>real n / real k\<rceil> = int ((n + k - 1) div k)"
proof -
  define q where "q = (n + k - 1) div k"
  have up: "n \<le> q * k" and lo: "q * k < n + k"
    unfolding q_def using thin_bounds[OF assms] by simp_all
  from up have "real n \<le> real q * real k"
    by (metis of_nat_mult of_nat_le_iff)
  then have 1: "real n / real k \<le> real q"
    using assms by (simp add: divide_le_eq)
  from lo have "real q * real k < real n + real k"
    by (metis of_nat_add of_nat_mult of_nat_less_iff)
  then have 2: "real q - 1 < real n / real k"
    using assms by (simp add: less_divide_eq algebra_simps)
  show ?thesis
    unfolding q_def[symmetric] by (rule ceiling_unique) (use 1 2 in simp_all)
qed

lemma budget_met:
  assumes "0 < k" "m * int k \<le> int n"
  shows "m \<le> int ((n + k - 1) div k)"
proof -
  have "int n \<le> int ((n + k - 1) div k) * int k"
    using thin_bounds(1)[OF assms(1), of n] by (metis of_nat_mult of_nat_le_iff)
  with assms(2) have "m * int k \<le> int ((n + k - 1) div k) * int k" by linarith
  with assms(1) show ?thesis by (simp add: mult_le_cancel_right)
qed

lemma length_concat_const:
  "(\<And>x. x \<in> set xs \<Longrightarrow> length x = m) \<Longrightarrow> length (concat xs) = length xs * m"
  by (induction xs) simp_all

lemma every_nth:
  "j < (length xs + k - 1) div k \<Longrightarrow> every k xs ! j = xs ! (j * k)"
  by (simp add: every_def)

lemma nth_concat_const:
  "(\<And>x. x \<in> set xss \<Longrightarrow> length x = m) \<Longrightarrow> w < length xss \<Longrightarrow> j < m
   \<Longrightarrow> concat xss ! (w * m + j) = xss ! w ! j"
proof (induction xss arbitrary: w)
  case Nil
  then show ?case by simp
next
  case (Cons xs xss)
  show ?case
  proof (cases w)
    case 0
    with Cons.prems show ?thesis by (simp add: nth_append)
  next
    case (Suc v)
    with Cons.prems have "concat xss ! (v * m + j) = xss ! v ! j"
      by (intro Cons.IH) simp_all
    with Suc Cons.prems(1)[of xs] show ?thesis by (simp add: nth_append)
  qed
qed

section \<open>Thinning and the state at the exit of the loop\<close>

lemma thin_and_flatten_result:
  assumes "acl st = PyInt k" "1 \<le> k" "0 < ntemps (sampler st)" "0 < ndim (sampler st)"
  shows "thin_and_flatten st = Inr (concat (map (every (nat k))
           (map (\<lambda>w. map (\<lambda>p. map (\<lambda>d. p 0 w d) [0..<ndim (sampler st)]) (history (sampler st)))
              [0..<nwalkers (sampler st)])))"
proof -
  let ?c0 = "map (\<lambda>w. map (\<lambda>p. map (\<lambda>d. p 0 w d) [0..<ndim (sampler st)]) (history (sampler st)))
              [0..<nwalkers (sampler st)]"
  have "first_row (sampler_chain (sampler st)) = Inr ?c0"
    using assms(3) by (simp add: sampler_chain_def upt_conv_Cons del: upt_Suc)
  moreover have "sequence (map (slice_step (acl st)) ?c0) = Inr (map (every (nat k)) ?c0)"
    using assms(1,2) by (intro sequence_map_Inr) (simp add: slice_step_def)
  ultimately show ?thesis
    using assms(4) by (simp add: thin_and_flatten_def reshape_rows_def)
qed

lemma sampler_chain_nth:
  assumes "0 < ntemps s" "w < nwalkers s" "i < length (history s)"
  shows "sampler_chain s ! 0 ! w ! i = map (\<lambda>d. (history s ! i) 0 w d) [0..<ndim s]"
  using assms by (simp add: sampler_chain_def)

lemma thin_rows:
  assumes "acl st = PyInt (int k)" "0 < k" "0 < ntemps (sampler st)" "0 < ndim (sampler st)"
  obtains c0 where
    "first_row (sampler_chain (sampler st)) = Inr c0"
    "thin_and_flatten st = Inr (concat (map (every k) c0))"
    "list_all (\<lambda>r. length r = ndim (sampler st)) (concat (map (every k) c0))"
    "list_all (\<lambda>w. length (every k w) = (length (history (sampler st)) + k - 1) div k) c0"
    "length (concat (map (every k) c0))
       = nwalkers (sampler st) * ((length (history (sampler st)) + k - 1) div k)"
    "\<forall>w<nwalkers (sampler st). \<forall>j<(length (history (sampler st)) + k - 1) div k.
        j * k < length (history (sampler st))
      \<and> concat (map (every k) c0) ! (w * ((length (history (sampler st)) + k - 1) div k) + j)
          = sampler_chain (sampler st) ! 0 ! w ! (j * k)"
proof -
  let ?s = "sampler st"
  let ?m = "(length (history ?s) + k - 1) div k"
  let ?c0 = "map (\<lambda>w. map (\<lambda>p. map (\<lambda>d. p 0 w d) [0..<ndim ?s]) (history ?s)) [0..<nwalkers ?s]"
  have 1: "first_row (sampler_chain ?s) = Inr ?c0"
    using assms(3) by (simp add: sampler_chain_def upt_conv_Cons del: upt_Suc)
  have 2: "thin_and_flatten st = Inr (concat (map (every k) ?c0))"
    using thin_and_flatten_result[OF assms(1) _ assms(3,4)] assms(2) by simp
  have 3: "list_all (\<lambda>r. length r = ndim ?s) (concat (map (every k) ?c0))"
    using every_subset[OF assms(2)] by (fastforce simp: list_all_iff)
  have 4: "list_all (\<lambda>w. length (every k w) = ?m) ?c0"
    by (simp add: list_all_iff every_length)
  have "length (concat (map (every k) ?c0)) = length (map (every k) ?c0) * ?m"
    by (rule length_concat_const) (auto simp: every_length)
  then have 5: "length (concat (map (every k) ?c0)) = nwalkers ?s * ?m" by simp
  have c0: "sampler_chain ?s ! 0 = ?c0"
    using assms(3) by (simp add: sampler_chain_def)
  have 6: "j * k < length (history ?s)
      \<and> concat (map (every k) ?c0) ! (w * ?m + j) = sampler_chain ?s ! 0 ! w ! (j * k)"
    if w: "w < nwalkers ?s" and j: "j < ?m" for w j
  proof -
    from every_index[OF assms(2) j] have i: "j * k < length (history ?s)" .
    have "concat (map (every k) ?c0) ! (w * ?m + j) = map (every k) ?c0 ! w ! j"
      using w j by (intro nth_concat_const) (auto simp: every_length)
    also have "\<dots> = every k (?c0 ! w) ! j" using w by simp
    also have "\<dots> = ?c0 ! w ! (j * k)"
      using w j by (intro every_nth) simp
    finally show ?thesis using i c0 by simp
  qed
  from 6 have 7: "\<forall>w<nwalkers ?s. \<forall>j<?m. j * k < length (history ?s)
      \<and> concat (map (every k) ?c0) ! (w * ?m + j) = sampler_chain ?s ! 0 ! w ! (j * k)"
    by blast
  show thesis by (rule that[OF 1 2 3 4 5 7])
qed

lemma loop_exit_facts:
  assumes "burn_in bb cfg g = Inr st0" and "loop fuel bb cfg st0 = Some (Inr st)"
  obtains k where "acl st = PyInt (int k)" "0 < k"
    "nindep cfg * int k \<le> int (time (sampler st))"
    "0 < ntemps (sampler st)" "0 < ndim (sampler st)"
    "length (history (sampler st)) = time (sampler st)"
    "nwalkers (sampler st) = walkers cfg" "ndim (sampler st) = length (lo cfg)"
    "ntemps (sampler st) = cfg_ntemps cfg"
proof -
  define P :: "'a state \<Rightarrow> bool" where
    "P = (\<lambda>a. acl_ok (acl a)
       \<and> ((\<exists>i. acl a = PyInt i) \<longrightarrow> 0 < ntemps (sampler a) \<and> 0 < ndim (sampler a))
       \<and> length (history (sampler a)) = time (sampler a)
       \<and> nwalkers (sampler a) = walkers cfg \<and> ndim (sampler a) = length (lo cfg)
       \<and> ntemps (sampler a) = cfg_ntemps cfg)"
  from burn_in_result[OF assms(1)] obtain s where b:
    "sampler st0 = reset s" "nwalkers s = walkers cfg" "ndim s = length (lo cfg)"
    "ntemps s = cfg_ntemps cfg" "acl st0 = PyFloat NaN" by metis
  have init: "P st0"
    using b unfolding P_def by (simp add: reset_def)
  have step: "P b" if "P a" "loop_cond cfg a = Inr True" "adaptive_round bb cfg a = Inr b" for a b
  proof -
    from adaptive_round_result[OF that(3)] obtain raw new where r:
      "raw_acl bb (sampler b) = Inr raw" "acl b = refresh_acl raw"
      "time (sampler b) = time (sampler a) + nsteps a"
      "nwalkers (sampler b) = nwalkers (sampler a)" "ndim (sampler b) = ndim (sampler a)"
      "ntemps (sampler b) = ntemps (sampler a)"
      "history (sampler b) = history (sampler a) @ new" "length new = nsteps a"
      by metis
    from raw_acl_result[OF r(1)] have "0 < ntemps (sampler b)" "0 < ndim (sampler b)"
      by metis+
    with r that(1) show ?thesis
      unfolding P_def by (simp add: refresh_acl_ok)
  qed
  from loop_invariant[of fuel bb cfg st0 st P, OF assms(2) init step]
  have P: "P st" and c: "loop_cond cfg st = Inr False" by simp_all
  from P have "acl_ok (acl st)" by (simp add: P_def)
  from loop_cond_False[OF c this] obtain k where k:
    "acl st = PyInt (int k)" "0 < k" "nindep cfg * int k \<le> int (time (sampler st))"
    by metis
  with P show thesis
    unfolding P_def by (intro that[of k]) auto
qed

lemma loop_history:
  assumes "burn_in bb cfg g = Inr st0" and "loop fuel bb cfg st0 = Some (Inr st)"
    and "start bb cfg g = Inr (s0, p0, pr0)"
  shows "length (history (sampler st)) = time (sampler st)"
    and "\<forall>i<time (sampler st). \<exists>gi.
           kernel_iter bb (nat (nburnin cfg) + Suc i) (rng s0, p0)
             = Inr (gi, history (sampler st) ! i)"
    and "kernel_iter bb (nat (nburnin cfg) + time (sampler st)) (rng s0, p0)
           = Inr (rng (sampler st), pos st)"
proof -
  define B where "B = nat (nburnin cfg)"
  define P :: "'a state \<Rightarrow> bool" where
    "P = (\<lambda>a. length (history (sampler a)) = time (sampler a)
       \<and> (\<forall>i<time (sampler a). \<exists>gi.
             kernel_iter bb (B + Suc i) (rng s0, p0) = Inr (gi, history (sampler a) ! i))
       \<and> kernel_iter bb (B + time (sampler a)) (rng s0, p0) = Inr (rng (sampler a), pos a))"
  from burn_in_result[OF assms(1)] obtain s0' p0' pr0' s where b:
    "start bb cfg g = Inr (s0', p0', pr0')"
    "sampler st0 = reset s"
    "kernel_iter bb (nat (nburnin cfg)) (rng s0', p0') = Inr (rng s, pos st0)"
    by metis
  from b(1) assms(3) have "s0' = s0" "p0' = p0" by simp_all
  with b have init: "P st0" by (simp add: P_def B_def reset_def)
  have step: "P b" if "P a" "loop_cond cfg a = Inr True" "adaptive_round bb cfg a = Inr b" for a b
  proof -
    from adaptive_round_result[OF that(3)] obtain new where q:
      "kernel_iter bb (nsteps a) (rng (sampler a), pos a) = Inr (rng (sampler b), pos b)"
      "time (sampler b) = time (sampler a) + nsteps a"
      "history (sampler b) = history (sampler a) @ new" "length new = nsteps a"
      "\<forall>j<length new. \<exists>gj. kernel_iter bb (Suc j) (rng (sampler a), pos a) = Inr (gj, new ! j)"
      by metis
    from that(1) have a: "kernel_iter bb (B + time (sampler a)) (rng s0, p0)
        = Inr (rng (sampler a), pos a)"
      and l: "length (history (sampler a)) = time (sampler a)"
      and h: "\<forall>i<time (sampler a). \<exists>gi.
             kernel_iter bb (B + Suc i) (rng s0, p0) = Inr (gi, history (sampler a) ! i)"
      by (simp_all add: P_def)
    have 1: "kernel_iter bb (B + time (sampler b)) (rng s0, p0) = Inr (rng (sampler b), pos b)"
      using kernel_iter_add[of bb "B + time (sampler a)" "nsteps a" "(rng s0, p0)"] a q(1,2)
      by (simp add: add.assoc)
    have 2: "length (history (sampler b)) = time (sampler b)"
      using q l by simp
    have 3: "\<exists>gi. kernel_iter bb (B + Suc i) (rng s0, p0) = Inr (gi, history (sampler b) ! i)"
      if i: "i < time (sampler b)" for i
    proof (cases "i < time (sampler a)")
      case True
      with h l q(3) show ?thesis by (simp add: nth_append)
    next
      case False
      define j where "j = i - time (sampler a)"
      with False i q(2,4) have j: "j < length new" "i = time (sampler a) + j" by simp_all
      from q(5) j(1) obtain gj where
        "kernel_iter bb (Suc j) (rng (sampler a), pos a) = Inr (gj, new ! j)" by blast
      with kernel_iter_add[of bb "B + time (sampler a)" "Suc j" "(rng s0, p0)"] a
      have "kernel_iter bb (B + time (sampler a) + Suc j) (rng s0, p0) = Inr (gj, new ! j)"
        by simp
      moreover have "history (sampler b) ! i = new ! j"
        using j l q(3) by (simp add: nth_append)
      moreover have "B + Suc i = B + time (sampler a) + Suc j" using j by simp
      ultimately show ?thesis by metis
    qed
    from 1 2 3 show ?thesis by (simp add: P_def)
  qed
  from loop_invariant[of fuel bb cfg st0 st P, OF assms(2) init step]
  have "P st" by simp
  then show "length (history (sampler st)) = time (sampler st)"
    and "\<forall>i<time (sampler st). \<exists>gi.
           kernel_iter bb (nat (nburnin cfg) + Suc i) (rng s0, p0)
             = Inr (gi, history (sampler st) ! i)"
    and "kernel_iter bb (nat (nburnin cfg) + time (sampler st)) (rng s0, p0)
           = Inr (rng (sampler st), pos st)"
    by (simp_all add: P_def B_def)
qed

section \<open>The example run\<close>

lemma iterations_total:
  assumes "\<And>g p. \<exists>r. kernel bb g p = Inr r"
  shows "\<exists>r. iterations bb n storechain x = Inr r"
proof (induction n arbitrary: x)
  case 0
  show ?case by (rule exI[of _ x]) simp
next
  case (Suc n)
  obtain s p pr where x: "x = (s, p, pr)" by (metis prod_cases3)
  from assms obtain r where "kernel bb (rng s) p = Inr r" by blast
  then obtain s' p' where "sample_step bb storechain (s, p) = Inr (s', p')"
    by (cases r) (auto simp: sample_step_def)
  with Suc.IH[of "(s', p', update pr)"] show ?case by (simp add: x)
qed

lemma sample_loop_total:
  assumes "\<And>g p. \<exists>r. kernel bb g p = Inr r" and "\<And>g p. sample_start bb g p = None"
  shows "\<exists>s' p' pr'. sample_loop bb n storechain (s, p, pr) = Inr (s', p', pr')"
proof -
  from iterations_total[OF assms(1), of n storechain "(s, p, pr)"]
  obtain r where "iterations bb n storechain (s, p, pr) = Inr r" by blast
  then show ?thesis by (cases r) (simp add: sample_loop_def assms(2))
qed

lemma burn_in_total:
  assumes "\<And>g p. \<exists>r. kernel bb g p = Inr r" and "\<And>g p. sample_start bb g p = None"
    and "start bb cfg g = Inr x"
  shows "\<exists>st. burn_in bb cfg g = Inr st"
proof -
  obtain s p pr where x: "x = (s, p, pr)" by (metis prod_cases3)
  from sample_loop_total[OF assms(1,2)] obtain s' p' pr' where
    "sample_loop bb (nat (nburnin cfg)) False (s, p, pr\<lparr>prog_desc := ''Burning in''\<rparr>)
       = Inr (s', p', pr')" by blast
  with assms(3) show ?thesis by (simp add: burn_in_def burn_phase_def x)
qed

lemma adaptive_round_total:
  assumes "\<And>g p. \<exists>r. kernel bb g p = Inr r" and "\<And>g p. sample_start bb g p = None"
    and "\<And>s. \<exists>a. autocorr bb s = Inr a"
    and "0 < ntemps (sampler st)" and "0 < ndim (sampler st)"
  shows "\<exists>st'. adaptive_round bb cfg st = Inr st'"
proof -
  let ?pr = "(progress st)\<lparr>prog_total := revised_total cfg st, prog_desc := ''Sampling''\<rparr>"
  from sample_loop_total[OF assms(1,2)] obtain s p pr' where
    l: "sample_loop bb (nsteps st) True (sampler st, pos st, ?pr) = Inr (s, p, pr')" by blast
  from sample_loop_result[OF l] assms(4,5) have "0 < ntemps s" "0 < ndim s" by metis+
  moreover from assms(3) obtain a where "autocorr bb s = Inr a" by blast
  ultimately obtain raw where "raw_acl bb s = Inr raw"
    using raw_acl_total by blast
  with l show ?thesis by (simp add: adaptive_round_def Let_def)
qed

lemma bb_est_total:
  "\<exists>r. kernel (bb_est est) g p = Inr r" "sample_start (bb_est est) g p = None"
  "\<exists>a. autocorr (bb_est est) s = Inr a"
  by (simp_all add: bb_est_def)

lemma kernel_iter_est:
  "kernel_iter (bb_est est) n (g, p)
     = Inr (g + n, if n = 0 then p
                   else (\<lambda>t w d. Fin (real (1000 * t + 100 * w + 10 * d + (g + n - 1)))))"
  by (induction n arbitrary: g p) (simp_all add: bb_est_def)

lemma raw_acl_est:
  "0 < ntemps s \<Longrightarrow> ndim s = 2 \<Longrightarrow> raw_acl (bb_est est) s = Inr (f_max (est 0 0) (est 0 1))"
  by (cases "ntemps s")
     (simp_all add: raw_acl_def get_autocorr_time_def bb_est_def upt_conv_Cons
        numeral_2_eq_2 del: upt_Suc)

lemma start_est:
  assumes "length (lo cfg) = 2" "length (hi cfg) = 2" "cfg_nwalkers cfg = Some 2"
  shows "start (bb_est est) cfg 0
     = Inr (new_sampler 2 2 (cfg_ntemps cfg) 0, (\<lambda>t w d. Fin 0),
            tqdm (PyInt (nburnin cfg + nindep cfg * 64)))"
  using assms
  by (simp add: start_def Let_def Sampler_def walkers_def bb_est_def new_sampler_def)

lemma example_first_round:
  assumes "length (lo cfg) = 2" "length (hi cfg) = 2" "cfg_ntemps cfg = 2"
    "cfg_nwalkers cfg = Some 2" "nburnin cfg = 3"
  obtains st0 st1 where
    "burn_in (bb_est est) cfg 0 = Inr st0"
    "adaptive_round (bb_est est) cfg st0 = Inr st1"
    "rounds 1 (bb_est est) cfg st0 = Inr st1"
    "raw_acl (bb_est est) (sampler st1) = Inr (f_max (est 0 0) (est 0 1))"
    "acl st0 = PyFloat NaN" "acl st1 = refresh_acl (f_max (est 0 0) (est 0 1))"
    "time (sampler st0) = 0" "time (sampler st1) = 64"
    "nsteps st0 = 64" "nsteps st1 = 128"
    "rng (sampler st0) = 3" "history (sampler st0) = []"
    "prog_n (progress st0) = 3"
    "prog_total (progress st1) = PyInt 67"
    "nwalkers (sampler st1) = 2" "ndim (sampler st1) = 2" "ntemps (sampler st1) = 2"
    "length (history (sampler st1)) = 64"
proof -
  let ?bb = "bb_est est"
  have w: "walkers cfg = 2" using assms by (simp add: walkers_def)
  note s = start_est[OF assms(1,2,4), of est]
  from burn_in_total[OF bb_est_total(1,2) s] obtain st0 where b: "burn_in ?bb cfg 0 = Inr st0" ..
  from burn_in_result[OF b] obtain s0 p0 pr0 sb where r0:
    "start ?bb cfg 0 = Inr (s0, p0, pr0)"
    "sampler st0 = reset sb"
    "kernel_iter ?bb (nat (nburnin cfg)) (rng s0, p0) = Inr (rng sb, pos st0)"
    "nwalkers sb = walkers cfg" "ndim sb = length (lo cfg)" "ntemps sb = cfg_ntemps cfg"
    "acl st0 = PyFloat NaN" "nsteps st0 = 64"
    "prog_n (progress st0) = nat (nburnin cfg)"
    by metis
  from r0(1) s have "rng s0 = 0" by (auto simp: new_sampler_def)
  with r0(3) assms(5) have "rng sb = 3" by (simp add: kernel_iter_est)
  with r0(2) have rng0: "rng (sampler st0) = 3" by (simp add: reset_def)
  have t0: "time (sampler st0) = 0" and h0: "history (sampler st0) = []"
    using r0(2) by (simp_all add: reset_def)
  have d0: "nwalkers (sampler st0) = 2" "ndim (sampler st0) = 2" "ntemps (sampler st0) = 2"
    using r0(2,4,5,6) assms w by (simp_all add: reset_def)
  then have "0 < ntemps (sampler st0)" "0 < ndim (sampler st0)" by simp_all
  from adaptive_round_total[OF bb_est_total this] obtain st1 where
    a: "adaptive_round ?bb cfg st0 = Inr st1" ..
  from adaptive_round_result[OF a] obtain raw new where r1:
    "raw_acl ?bb (sampler st1) = Inr raw" "acl st1 = refresh_acl raw"
    "time (sampler st1) = time (sampler st0) + nsteps st0"
    "nwalkers (sampler st1) = nwalkers (sampler st0)" "ndim (sampler st1) = ndim (sampler st0)"
    "ntemps (sampler st1) = ntemps (sampler st0)"
    "nsteps st1 = nsteps st0 * 2"
    "prog_total (progress st1) = revised_total cfg st0"
    "history (sampler st1) = history (sampler st0) @ new" "length new = nsteps st0"
    by metis
  have dims: "nwalkers (sampler st1) = 2" "ndim (sampler st1) = 2" "ntemps (sampler st1) = 2"
    using r1 d0 by simp_all
  have "raw_acl ?bb (sampler st1) = Inr (f_max (est 0 0) (est 0 1))"
    by (rule raw_acl_est) (simp_all add: dims)
  with r1(1) have raw: "raw = f_max (est 0 0) (est 0 1)" by simp
  have tot: "prog_total (progress st1) = PyInt 67"
    using r1(8) r0(7,8) t0 assms(5)
    by (simp add: revised_total_def py_max_def py_gt_def py_lt_def)
  have rd: "rounds 1 ?bb cfg st0 = Inr st1"
    unfolding One_nat_def using a by simp
  have f1: "raw_acl ?bb (sampler st1) = Inr (f_max (est 0 0) (est 0 1))" using r1(1) raw by simp
  have f2: "acl st1 = refresh_acl (f_max (est 0 0) (est 0 1))" using r1(2) raw by simp
  have f3: "time (sampler st1) = 64" using r1(3) t0 r0(8) by simp
  have f4: "nsteps st1 = 128" using r1(7) r0(8) by simp
  have f5: "prog_n (progress st0) = 3" using r0(9) assms(5) by simp
  have f6: "length (history (sampler st1)) = 64" using r1(9,10) h0 r0(8) by simp
  show thesis
    by (rule that[OF b a rd f1 r0(7) f2 t0 f3 r0(8) f4 rng0 h0 f5 tot dims f6])
qed

lemma f_max_est_ex: "f_max (est_ex 0 0) (est_ex 0 1) = Fin (31 / 2)"
  by (simp add: f_max_def est_ex_def)

lemma f_max_est_nan: "f_max (est_nan 0 0) (est_nan 0 1) = NaN"
  by (simp add: f_max_def est_nan_def)

lemma example_run:
  assumes "length (lo cfg) = 2" "length (hi cfg) = 2" "cfg_ntemps cfg = 2"
    "cfg_nwalkers cfg = Some 2" "nburnin cfg = 3" "nindep cfg \<le> 4"
  obtains st0 st1 where
    "burn_in bb_ex cfg 0 = Inr st0"
    "adaptive_round bb_ex cfg st0 = Inr st1"
    "loop 1 bb_ex cfg st0 = Some (Inr st1)"
    "ez_emcee 1 bb_ex cfg 0 = Some (thin_and_flatten st1)"
    "acl st1 = PyInt 16" "time (sampler st1) = 64"
    "nwalkers (sampler st1) = 2" "ndim (sampler st1) = 2" "ntemps (sampler st1) = 2"
    "length (history (sampler st1)) = 64"
proof -
  from example_first_round[OF assms(1-5), of est_ex] obtain st0 st1 where r:
    "burn_in bb_ex cfg 0 = Inr st0"
    "adaptive_round bb_ex cfg st0 = Inr st1"
    "acl st0 = PyFloat NaN" "acl st1 = refresh_acl (f_max (est_ex 0 0) (est_ex 0 1))"
    "time (sampler st1) = 64"
    "nwalkers (sampler st1) = 2" "ndim (sampler st1) = 2" "ntemps (sampler st1) = 2"
    "length (history (sampler st1)) = 64"
    unfolding bb_ex_def by metis
  have a: "acl st1 = PyInt 16" unfolding r(4) f_max_est_ex by (simp add: refresh_acl_Fin)
  have c0: "loop_cond cfg st0 = Inr True" using r(3) by (simp add: loop_cond_nonfinite)
  have c1: "loop_cond cfg st1 = Inr False"
    using assms(6) r(5) by (simp add: loop_cond_int[OF a])
  have l: "loop 1 bb_ex cfg st0 = Some (Inr st1)"
    unfolding One_nat_def using c0 c1 r(2) by simp
  have e: "ez_emcee 1 bb_ex cfg 0 = Some (thin_and_flatten st1)"
    using r(1) l by (simp add: ez_emcee_def)
  show thesis by (rule that[OF r(1,2) l e a r(5-9)])
qed

section \<open>The box prior: properties\<close>

lemma logp_pointwise:
  assumes "rows_of_length (length lb) x" and "length ub = length lb"
  shows "logp x lb ub
       = Inr (map_axes (\<lambda>r. if (\<forall>i<length lb. np_le (lb ! i) (r ! i) \<and> np_le (r ! i) (ub ! i))
                            then Fin 0 else NInf) x)"
proof -
  have "box_prior lb ub x
      = map_axes (\<lambda>r. if (\<forall>i<length lb. np_le (lb ! i) (r ! i) \<and> np_le (r ! i) (ub ! i))
                       then Fin 0 else NInf) x"
  proof (unfold box_prior_def, intro axes.map_cong refl)
    fix r assume "r \<in> set_axes x"
    with assms(1) have "length r = length lb" by (rule set_axes_rows)
    then show "(if in_box lb ub r then Fin 0 else NInf)
        = (if (\<forall>i<length lb. np_le (lb ! i) (r ! i) \<and> np_le (r ! i) (ub ! i)) then Fin 0 else NInf)"
      by (simp add: in_box_def list_all_iff)
  qed
  with logp_rows[OF assms] show ?thesis by simp
qed

lemma logp_embedded:
  fixes inj :: "'a \<Rightarrow> npval" and c :: "'a \<Rightarrow> 'a \<Rightarrow> bool"
  assumes "rows_of_length (length l) y" and "length u = length l"
    and c: "\<And>a b. np_le (inj a) (inj b) = c a b"
  shows "logp (map_axes (map inj) y) (map inj l) (map inj u)
       = Inr (map_axes (\<lambda>r. if (\<forall>i<length l. c (l ! i) (r ! i) \<and> c (r ! i) (u ! i))
                            then Fin 0 else NInf) y)"
proof -
  have rows: "rows_of_length (length (map inj l)) (map_axes (map inj) y)"
    using assms(1) by (induction y) (simp_all add: list_all_iff)
  have len: "length (map inj u) = length (map inj l)" using assms(2) by simp
  show ?thesis
    unfolding logp_pointwise[OF rows len] axes.map_comp
  proof (intro arg_cong[where f = Inr] axes.map_cong refl)
    fix r assume "r \<in> set_axes y"
    with assms(1) have "length r = length l" by (rule set_axes_rows)
    with assms(2)
    show "((\<lambda>r. if \<forall>i<length (map inj l).
                    np_le (map inj l ! i) (r ! i) \<and> np_le (r ! i) (map inj u ! i)
                   then Fin 0 else NInf) \<circ> map inj) r
          = (if \<forall>i<length l. c (l ! i) (r ! i) \<and> c (r ! i) (u ! i) then Fin 0 else NInf)"
      by (simp add: c)
  qed
qed

lemma rows_of_length_map:
  "rows_of_length n (map_axes (map f) y) = rows_of_length n y"
  by (induction y) (simp_all add: list_all_iff)

text \<open>
  Claim C3, as amended. For an array \<open>x\<close> of float64 or int64 values whose last axis has
  the length of \<open>lo\<close> and of \<open>hi\<close> (a single vector or a batch under any leading axes),
  \<open>logp\<close> raises nothing and returns, for every last-axis row, 0.0 when every coordinate
  satisfies \<open>lo_i <= x_i <= hi_i\<close> under numpy's comparison and minus infinity otherwise.
  Only the last axis is collapsed: the result keeps the leading axes of \<open>x\<close>. The
  comparison is the exact one between two float64 values (false when one of them is
  not-a-number) and between two int64 values; between an int64 and a float64 the integer
  is first rounded to the nearest float64. The claim as stated fails for the int64 bound
  \<open>2^53 + 1\<close> and the float64 coordinate \<open>2^53\<close>: the row gets 0.0 although
  \<open>2^53 + 1 <= 2^53\<close> is false.
\<close>

theorem logp_is_box_prior:
  assumes "rows_of_length (length lb) x" and "length ub = length lb"
  shows "logp x lb ub
       = Inr (map_axes (\<lambda>r. if (\<forall>i<length lb. np_le (lb ! i) (r ! i) \<and> np_le (r ! i) (ub ! i))
                            then Fin 0 else NInf) x)
     \<and> (\<forall>y l u. x = map_axes (map F64) y \<and> lb = map F64 l \<and> ub = map F64 u
           \<longrightarrow> logp x lb ub
               = Inr (map_axes (\<lambda>r. if (\<forall>i<length l. f_le (l ! i) (r ! i) \<and> f_le (r ! i) (u ! i))
                                    then Fin 0 else NInf) y))
     \<and> (\<forall>y l u. x = map_axes (map I64) y \<and> lb = map I64 l \<and> ub = map I64 u
           \<longrightarrow> logp x lb ub
               = Inr (map_axes (\<lambda>r. if (\<forall>i<length l. l ! i \<le> r ! i \<and> r ! i \<le> u ! i)
                                    then Fin 0 else NInf) y))"
proof -
  have F: "logp x lb ub
       = Inr (map_axes (\<lambda>r. if (\<forall>i<length l. f_le (l ! i) (r ! i) \<and> f_le (r ! i) (u ! i))
                            then Fin 0 else NInf) y)"
    if h: "x = map_axes (map F64) y \<and> lb = map F64 l \<and> ub = map F64 u" for y l u
  proof -
    from assms h have "rows_of_length (length l) y" "length u = length l"
      by (simp_all add: rows_of_length_map)
    from logp_embedded[OF this, of F64 f_le] h show ?thesis by simp
  qed
  have I: "logp x lb ub
       = Inr (map_axes (\<lambda>r. if (\<forall>i<length l. l ! i \<le> r ! i \<and> r ! i \<le> u ! i)
                            then Fin 0 else NInf) y)"
    if h: "x = map_axes (map I64) y \<and> lb = map I64 l \<and> ub = map I64 u" for y l u
  proof -
    from assms h have "rows_of_length (length l) y" "length u = length l"
      by (simp_all add: rows_of_length_map)
    from logp_embedded[OF this, of I64 "(\<le>)"] h show ?thesis by simp
  qed
  from logp_pointwise[OF assms] F I show ?thesis by blast
qed

theorem logp_is_box_prior_witness:
  "rows_of_length (length [F64 (Fin 0), F64 (Fin 0)]) x_batch
   \<and> logp x_batch [F64 (Fin 0), F64 (Fin 0)] [F64 (Fin 3), F64 PInf]
       = Inr (Stack [Item (Fin 0), Item NInf, Item (Fin 0)])
   \<and> logp (Item [F64 (Fin 3), F64 (Fin 4)]) [I64 0, I64 0] [I64 3, F64 PInf] = Inr (Item (Fin 0))
   \<and> logp (Item [I64 3, I64 (-1)]) [I64 0, I64 0] [I64 3, I64 5] = Inr (Item NInf)"
proof -
  have b: "rows_of_length (length [F64 (Fin 0), F64 (Fin 0)]) x_batch"
    by (simp add: x_batch_def)
  have v: "rows_of_length (length [I64 0, I64 0]) (Item [F64 (Fin 3), F64 (Fin 4)])"
    "rows_of_length (length [I64 0, I64 0]) (Item [I64 3, I64 (-1)])"
    by simp_all
  have l: "length [F64 (Fin 3), F64 PInf] = length [F64 (Fin 0), F64 (Fin 0)]"
    "length [I64 3, F64 PInf] = length [I64 0, I64 0]"
    "length [I64 3, I64 5] = length [I64 0, I64 0]" by simp_all
  have z: "to_f64 0 = Fin 0" "to_f64 3 = Fin 3"
    using to_f64_exact[of 0] to_f64_exact[of 3] by simp_all
  have two: "(\<forall>i<Suc (Suc 0). P i) = (P 0 \<and> P (Suc 0))" for P
    by (auto simp: less_Suc_eq)
  show ?thesis
    using logp_is_box_prior[OF b l(1), THEN conjunct1]
      logp_is_box_prior[OF v(1) l(2), THEN conjunct1]
      logp_is_box_prior[OF v(2) l(3), THEN conjunct1] b
    by (simp add: x_batch_def two z)
qed

theorem logp_rounding_counterexample:
  "logp (Item [F64 (Fin (2 ^ 53))]) [I64 (2 ^ 53 + 1)] [F64 PInf] = Inr (Item (Fin 0))
   \<and> \<not> (of_int (2 ^ 53 + 1) \<le> (2 ^ 53 :: real))"
proof -
  have "logp (Item [F64 (Fin (2 ^ 53))]) [I64 (2 ^ 53 + 1)] [F64 PInf]
      = Inr (box_prior [I64 (2 ^ 53 + 1)] [F64 PInf] (Item [F64 (Fin (2 ^ 53))]))"
    by (rule logp_rows) simp_all
  then show ?thesis
    by (simp add: box_prior_def in_box_def to_f64_example_numeral)
qed

text \<open>
  Claim C10. With no dimension at all (empty \<open>lo\<close> and \<open>hi\<close>, every row of \<open>x\<close> of
  length zero) \<open>logp\<close> returns 0.0 for every row: the conjunction over an empty last
  axis is true.
\<close>

theorem logp_zero_dimensions:
  assumes "rows_of_length 0 x"
  shows "logp x [] [] = Inr (map_axes (\<lambda>r. Fin 0) x)"
proof -
  have "logp x [] [] = Inr (box_prior [] [] x)"
    using assms by (intro logp_rows) simp_all
  moreover have "box_prior [] [] x = map_axes (\<lambda>r. Fin 0) x"
    unfolding box_prior_def
    using assms by (intro axes.map_cong refl) (auto simp: in_box_def dest: set_axes_rows)
  ultimately show ?thesis by simp
qed

theorem logp_zero_dimensions_witness:
  "rows_of_length 0 x_empty \<and> logp x_empty [] [] = Inr (Stack [Item (Fin 0), Item (Fin 0)])
   \<and> logp (Item []) [] [] = Inr (Item (Fin 0))"
proof -
  have e: "rows_of_length 0 x_empty" by (simp add: x_empty_def)
  have v: "rows_of_length 0 (Item ([] :: npval list))" by simp
  show ?thesis
    using logp_zero_dimensions[OF e] logp_zero_dimensions[OF v] e
    by (simp add: x_empty_def)
qed

section \<open>The adaptive loop: properties\<close>




text \<open>
  Claim C4. After the estimate is recomputed in a round, the raw estimate is the maximum
  over the dimensions of the estimator's table at the coldest temperature (index 0): it
  is not-a-number when one of these entries is, and otherwise it is one of these entries
  and none of them exceeds it. A finite raw estimate \<open>r\<close> is stored as the integer
  \<open>max(1, ceil(r))\<close>, and a raw estimate that is not finite is stored as it is.
\<close>

theorem acl_rounded_up:
  assumes "adaptive_round bb cfg st = Inr st'"
  shows "\<exists>a raw. autocorr bb (sampler st') = Inr a \<and> 0 < ndim (sampler st')
     \<and> ((\<exists>d<ndim (sampler st'). a 0 d = NaN) \<longrightarrow> raw = NaN)
     \<and> ((\<forall>d<ndim (sampler st'). a 0 d \<noteq> NaN)
          \<longrightarrow> (\<exists>d<ndim (sampler st'). raw = a 0 d)
            \<and> (\<forall>d<ndim (sampler st'). f_le (a 0 d) raw))
     \<and> (\<forall>r. raw = Fin r \<longrightarrow> acl st' = PyInt (max 1 \<lceil>r\<rceil>))
     \<and> (\<not> isfinite raw \<longrightarrow> acl st' = PyFloat raw)"
proof -
  from adaptive_round_result[OF assms] obtain raw where r:
    "raw_acl bb (sampler st') = Inr raw" "acl st' = refresh_acl raw" by metis
  from raw_acl_result[OF r(1)] obtain a where a:
    "autocorr bb (sampler st') = Inr a" "0 < ndim (sampler st')"
    "np_max (map (a 0) [0..<ndim (sampler st')]) = Inr raw" by metis
  have s: "set (map (a 0) [0..<ndim (sampler st')]) = a 0 ` {..<ndim (sampler st')}"
    by (simp add: atLeast0LessThan)
  have 1: "(\<exists>d<ndim (sampler st'). a 0 d = NaN) \<longrightarrow> raw = NaN"
  proof
    assume "\<exists>d<ndim (sampler st'). a 0 d = NaN"
    then obtain d where "d < ndim (sampler st')" "a 0 d = NaN" by blast
    then have "NaN \<in> set (map (a 0) [0..<ndim (sampler st')])"
      unfolding s by force
    then show "raw = NaN" by (rule np_max_result(2)[OF a(3)])
  qed
  have 2: "(\<forall>d<ndim (sampler st'). a 0 d \<noteq> NaN)
          \<longrightarrow> (\<exists>d<ndim (sampler st'). raw = a 0 d)
            \<and> (\<forall>d<ndim (sampler st'). f_le (a 0 d) raw)"
  proof
    assume "\<forall>d<ndim (sampler st'). a 0 d \<noteq> NaN"
    then have "NaN \<notin> set (map (a 0) [0..<ndim (sampler st')])"
      unfolding s by force
    from np_max_result(3)[OF a(3) this]
    have "raw \<in> a 0 ` {..<ndim (sampler st')}"
      and "\<forall>y\<in>a 0 ` {..<ndim (sampler st')}. f_le y raw"
      unfolding s by simp_all
    then show "(\<exists>d<ndim (sampler st'). raw = a 0 d) \<and> (\<forall>d<ndim (sampler st'). f_le (a 0 d) raw)"
      by auto
  qed
  have 3: "\<forall>r. raw = Fin r \<longrightarrow> acl st' = PyInt (max 1 \<lceil>r\<rceil>)"
    using r(2) by (auto simp: refresh_acl_Fin)
  have 4: "\<not> isfinite raw \<longrightarrow> acl st' = PyFloat raw"
    using r(2) by (auto simp: refresh_acl_nonfinite)
  from a(1,2) 1 2 3 4 show ?thesis by blast
qed

theorem acl_rounded_up_witness:
  "(\<exists>st0 st1. burn_in bb_ex cfg_ex 0 = Inr st0 \<and> adaptive_round bb_ex cfg_ex st0 = Inr st1
       \<and> autocorr bb_ex (sampler st1) = Inr est_ex \<and> ndim (sampler st1) = 2
       \<and> est_ex 0 0 = Fin (5 / 2) \<and> est_ex 0 1 = Fin (31 / 2) \<and> est_ex 1 0 = Fin 100
       \<and> acl st1 = PyInt 16)
   \<and> (\<exists>st0 st1. burn_in (bb_est est_nan) cfg_ex 0 = Inr st0
       \<and> adaptive_round (bb_est est_nan) cfg_ex st0 = Inr st1
       \<and> autocorr (bb_est est_nan) (sampler st1) = Inr est_nan \<and> ndim (sampler st1) = 2
       \<and> est_nan 0 0 = Fin 7 \<and> est_nan 0 1 = NaN
       \<and> acl st1 = PyFloat NaN)"
proof -
  have c: "length (lo cfg_ex) = 2" "length (hi cfg_ex) = 2" "cfg_ntemps cfg_ex = 2"
    "cfg_nwalkers cfg_ex = Some 2" "nburnin cfg_ex = 3"
    by (simp_all add: cfg_ex_def)
  have two: "d < 2 \<longleftrightarrow> d = 0 \<or> d = 1" for d :: nat by auto
  from example_first_round[OF c, of est_ex] obtain a0 a1 where a:
    "burn_in bb_ex cfg_ex 0 = Inr a0"
    "adaptive_round bb_ex cfg_ex a0 = Inr a1" "ndim (sampler a1) = 2"
    unfolding bb_ex_def by metis
  have e: "est_ex 0 0 = Fin (5 / 2)" "est_ex 0 1 = Fin (31 / 2)" "est_ex 1 0 = Fin 100"
    by (simp_all add: est_ex_def)
  have ae: "autocorr bb_ex s = Inr est_ex" for s by (simp add: bb_ex_def bb_est_def)
  from acl_rounded_up[OF a(2)] obtain f raw where w:
    "autocorr bb_ex (sampler a1) = Inr f"
    "(\<forall>d<ndim (sampler a1). f 0 d \<noteq> NaN)
          \<longrightarrow> (\<exists>d<ndim (sampler a1). raw = f 0 d)
            \<and> (\<forall>d<ndim (sampler a1). f_le (f 0 d) raw)"
    "\<forall>r. raw = Fin r \<longrightarrow> acl a1 = PyInt (max 1 \<lceil>r\<rceil>)" by blast
  from w(1) ae have f: "f = est_ex" by simp
  from w(2) have "(raw = Fin (5 / 2) \<or> raw = Fin (31 / 2)) \<and> f_le (Fin (31 / 2)) raw"
    unfolding f a(3) two using e by auto
  then have "raw = Fin (31 / 2)" by auto
  with w(3) have "acl a1 = PyInt (max 1 \<lceil>31 / 2 :: real\<rceil>)" by blast
  then have "acl a1 = PyInt 16" by simp
  with a ae e have 1: "\<exists>st0 st1. burn_in bb_ex cfg_ex 0 = Inr st0
       \<and> adaptive_round bb_ex cfg_ex st0 = Inr st1
       \<and> autocorr bb_ex (sampler st1) = Inr est_ex \<and> ndim (sampler st1) = 2
       \<and> est_ex 0 0 = Fin (5 / 2) \<and> est_ex 0 1 = Fin (31 / 2) \<and> est_ex 1 0 = Fin 100
       \<and> acl st1 = PyInt 16"
    by blast
  from example_first_round[OF c, of est_nan] obtain b0 b1 where b:
    "burn_in (bb_est est_nan) cfg_ex 0 = Inr b0"
    "adaptive_round (bb_est est_nan) cfg_ex b0 = Inr b1" "ndim (sampler b1) = 2"
    by metis
  have n: "est_nan 0 0 = Fin 7" "est_nan 0 1 = NaN"
    by (simp_all add: est_nan_def)
  have an: "autocorr (bb_est est_nan) s = Inr est_nan" for s by (simp add: bb_est_def)
  from acl_rounded_up[OF b(2)] obtain h rawn where v:
    "autocorr (bb_est est_nan) (sampler b1) = Inr h"
    "(\<exists>d<ndim (sampler b1). h 0 d = NaN) \<longrightarrow> rawn = NaN"
    "\<not> isfinite rawn \<longrightarrow> acl b1 = PyFloat rawn" by blast
  from v(1) an have h: "h = est_nan" by simp
  from v(2) have "rawn = NaN" unfolding h b(3) two using n by auto
  with v(3) have "acl b1 = PyFloat NaN" by simp
  with b an n have 2: "\<exists>st0 st1. burn_in (bb_est est_nan) cfg_ex 0 = Inr st0
       \<and> adaptive_round (bb_est est_nan) cfg_ex st0 = Inr st1
       \<and> autocorr (bb_est est_nan) (sampler st1) = Inr est_nan \<and> ndim (sampler st1) = 2
       \<and> est_nan 0 0 = Fin 7 \<and> est_nan 0 1 = NaN
       \<and> acl st1 = PyFloat NaN"
    by blast
  from 1 2 show ?thesis ..
qed

text \<open>
  Claim C5. The round size is 64 before the first round and doubles in every round, so
  it is \<open>64 * 2^k\<close> after \<open>k\<close> rounds and strictly increasing; the iteration count
  \<open>sampler.time\<close> grows by the round size in every round and so never decreases. The
  states the loop passes through are these states.
\<close>

theorem nsteps_doubles:
  assumes "burn_in bb cfg g = Inr st0" and "rounds k bb cfg st0 = Inr st"
  shows "nsteps st0 = 64 \<and> nsteps st = 64 * 2 ^ k \<and> time (sampler st) = 64 * 2 ^ k - 64
     \<and> (\<forall>st'. adaptive_round bb cfg st = Inr st'
           \<longrightarrow> nsteps st' = 2 * nsteps st \<and> nsteps st < nsteps st'
             \<and> time (sampler st') = time (sampler st) + nsteps st
             \<and> time (sampler st) \<le> time (sampler st'))
     \<and> (\<forall>fuel stf. loop fuel bb cfg st0 = Some (Inr stf)
           \<longrightarrow> (\<exists>j\<le>fuel. rounds j bb cfg st0 = Inr stf))"
proof -
  from burn_in_result[OF assms(1)] obtain s where "nsteps st0 = 64" "sampler st0 = reset s"
    by metis
  then have 0: "nsteps st0 = 64" "time (sampler st0) = 0"
    by (simp_all add: reset_def)
  from rounds_result[OF assms(2)] 0 have 1: "nsteps st = 64 * 2 ^ k"
    and 2: "time (sampler st) = 64 * (2 ^ k - 1)" by simp_all
  have 3: "nsteps b = 2 * nsteps st \<and> nsteps st < nsteps b
             \<and> time (sampler b) = time (sampler st) + nsteps st
             \<and> time (sampler st) \<le> time (sampler b)"
    if "adaptive_round bb cfg st = Inr b" for b
  proof -
    from adaptive_round_result[OF that] have "nsteps b = nsteps st * 2"
      "time (sampler b) = time (sampler st) + nsteps st" by metis+
    with 1 show ?thesis by simp
  qed
  have 4: "time (sampler st) = 64 * 2 ^ k - 64"
    using 2 by (simp add: diff_mult_distrib2)
  have 5: "\<exists>j\<le>fuel. rounds j bb cfg st0 = Inr stf"
    if "loop fuel bb cfg st0 = Some (Inr stf)" for fuel stf
    using that by (rule loop_rounds)
  from 0(1) 1 4 3 5 show ?thesis by blast
qed

theorem nsteps_doubles_witness:
  "\<exists>st0 st1. burn_in bb_ex cfg_ex 0 = Inr st0 \<and> rounds 1 bb_ex cfg_ex st0 = Inr st1
     \<and> nsteps st0 = 64 \<and> nsteps st1 = 128 \<and> time (sampler st0) = 0 \<and> time (sampler st1) = 64"
proof -
  have c: "length (lo cfg_ex) = 2" "length (hi cfg_ex) = 2" "cfg_ntemps cfg_ex = 2"
    "cfg_nwalkers cfg_ex = Some 2" "nburnin cfg_ex = 3"
    by (simp_all add: cfg_ex_def)
  from example_first_round[OF c, of est_ex] obtain st0 st1 where r:
    "burn_in bb_ex cfg_ex 0 = Inr st0"
    "adaptive_round bb_ex cfg_ex st0 = Inr st1"
    "rounds 1 bb_ex cfg_ex st0 = Inr st1"
    unfolding bb_ex_def by metis
  have z: "rounds 0 bb_ex cfg_ex st0 = Inr st0" by simp
  from nsteps_doubles[OF r(1) z] r(2) have
    "nsteps st0 = 64" "time (sampler st0) = 0" "nsteps st1 = 2 * nsteps st0"
    "time (sampler st1) = time (sampler st0) + nsteps st0"
    by simp_all
  moreover from nsteps_doubles[OF r(1) r(3)] have "nsteps st1 = 128" "time (sampler st1) = 64"
    by simp_all
  ultimately show ?thesis using r by blast
qed

text \<open>
  Claim C6, as amended. Before the iterations of a round the progress total is set to
  \<open>nburnin + max(sampler.time + nsteps, nindep * acl)\<close>, with Python's \<open>max\<close>. When
  \<open>acl\<close> is an integer this is the larger of the two numbers. When \<open>acl\<close> is still
  not-a-number, the comparison with \<open>nindep * acl\<close> is false, \<open>max\<close> keeps its first
  argument, and the total is \<open>nburnin + sampler.time + nsteps\<close>: the estimate is not
  replaced by 1. The claim as stated fails at the first round of a call with the default
  arguments, where the total is 564 and not 700.
\<close>

theorem progress_total_revised:
  assumes "adaptive_round bb cfg st = Inr st'"
  shows "prog_total (progress st')
       = py_add (nburnin cfg)
           (py_max (PyInt (int (time (sampler st)) + int (nsteps st)))
                   (py_mul (nindep cfg) (acl st)))
     \<and> (\<forall>k. acl st = PyInt k
           \<longrightarrow> prog_total (progress st')
               = PyInt (nburnin cfg + max (int (time (sampler st)) + int (nsteps st))
                                         (nindep cfg * k)))
     \<and> (acl st = PyFloat NaN
           \<longrightarrow> prog_total (progress st')
               = PyInt (nburnin cfg + (int (time (sampler st)) + int (nsteps st))))"
proof -
  from adaptive_round_result[OF assms]
  have t: "prog_total (progress st') = revised_total cfg st" by metis
  show ?thesis
    unfolding t revised_total_def
    by (auto simp: py_max_int) (simp add: py_max_def py_gt_def py_lt_def)
qed

theorem progress_total_revised_witness:
  "\<exists>st0 st1. burn_in bb_ex cfg_ex 0 = Inr st0 \<and> adaptive_round bb_ex cfg_ex st0 = Inr st1
     \<and> acl st0 = PyFloat NaN \<and> time (sampler st0) = 0 \<and> nsteps st0 = 64
     \<and> prog_total (progress st1) = PyInt 67"
proof -
  have c: "length (lo cfg_ex) = 2" "length (hi cfg_ex) = 2" "cfg_ntemps cfg_ex = 2"
    "cfg_nwalkers cfg_ex = Some 2" "nburnin cfg_ex = 3"
    by (simp_all add: cfg_ex_def)
  from example_first_round[OF c, of est_ex] obtain st0 st1 where r:
    "burn_in bb_ex cfg_ex 0 = Inr st0"
    "adaptive_round bb_ex cfg_ex st0 = Inr st1"
    "acl st0 = PyFloat NaN" "time (sampler st0) = 0" "nsteps st0 = 64"
    unfolding bb_ex_def by metis
  from progress_total_revised[OF r(2)] r(3)
  have "prog_total (progress st1)
      = PyInt (nburnin cfg_ex + (int (time (sampler st0)) + int (nsteps st0)))" by blast
  with r(4,5) c(5) have "prog_total (progress st1) = PyInt 67" by simp
  with r show ?thesis by blast
qed

theorem progress_total_counterexample:
  "acl st_first = PyFloat NaN
   \<and> revised_total cfg_default st_first = PyInt 564
   \<and> revised_total cfg_default st_first
       \<noteq> PyInt (nburnin cfg_default
                 + max (int (time (sampler st_first)) + int (nsteps st_first))
                       (nindep cfg_default * 1))"
  by (simp add: st_first_def cfg_default_def revised_total_def new_sampler_def
      py_max_def py_gt_def py_lt_def)

section \<open>Configuration errors and the thinning stride: properties\<close>

lemma update_total: "update (pr\<lparr>prog_total := t\<rparr>) = (update pr)\<lparr>prog_total := t\<rparr>"
  by (simp add: update_def)

lemma iterations_total_indep:
  "iterations bb n storechain (s, p, pr\<lparr>prog_total := t\<rparr>)
     = map_sum id (\<lambda>(s', p', pr'). (s', p', pr'\<lparr>prog_total := t\<rparr>))
         (iterations bb n storechain (s, p, pr))"
proof (induction n arbitrary: s p pr)
  case 0
  then show ?case by simp
next
  case (Suc n)
  show ?case
  proof (cases "sample_step bb storechain (s, p)")
    case (Inl e)
    then show ?thesis by simp
  next
    case (Inr r)
    obtain s' p' where r: "r = (s', p')" by (cases r) auto
    from Suc.IH[of s' p' "update pr"] Inr show ?thesis
      by (simp add: r update_total)
  qed
qed

lemma burn_in_nindep:
  "burn_in bb (cfg\<lparr>nindep := m\<rparr>) g
     = map_sum id
         (\<lambda>st. st\<lparr>progress := (progress st)\<lparr>prog_total := PyInt (nburnin cfg + m * 64)\<rparr>\<rparr>)
         (burn_in bb cfg g)"
proof -
  let ?t = "PyInt (nburnin cfg + m * 64)"
  have w: "walkers (cfg\<lparr>nindep := m\<rparr>) = walkers cfg"
    by (simp add: walkers_def split: option.splits)
  have q: "tqdm ?t = (tqdm (PyInt (nburnin cfg + nindep cfg * 64)))\<lparr>prog_total := ?t\<rparr>"
    by (simp add: tqdm_def)
  have s: "start bb (cfg\<lparr>nindep := m\<rparr>) g
      = map_sum id (\<lambda>(s, p, pr). (s, p, pr\<lparr>prog_total := ?t\<rparr>)) (start bb cfg g)"
    unfolding start_def Let_def w
    by (auto simp: tqdm_def split: sum.splits)
  have b: "burn_phase bb (cfg\<lparr>nindep := m\<rparr>) (s0, p0, pr0\<lparr>prog_total := ?t\<rparr>)
      = map_sum id (\<lambda>(s, p, pr). (s, p, pr\<lparr>prog_total := ?t\<rparr>))
          (burn_phase bb cfg (s0, p0, pr0))" for s0 p0 pr0
  proof -
    have sw: "pr0\<lparr>prog_total := ?t\<rparr>\<lparr>prog_desc := ''Burning in''\<rparr>
        = pr0\<lparr>prog_desc := ''Burning in''\<rparr>\<lparr>prog_total := ?t\<rparr>" by simp
    show ?thesis
    proof (cases "sample_start bb (rng s0) p0")
      case None
      then show ?thesis
        unfolding burn_phase_def sample_loop_def prod.case sw
        by (simp add: iterations_total_indep)
    next
      case (Some e)
      then show ?thesis by (simp add: burn_phase_def sample_loop_def)
    qed
  qed
  show ?thesis
  proof (cases "start bb cfg g")
    case (Inl e)
    with s show ?thesis by (simp add: burn_in_def)
  next
    case (Inr x)
    obtain s0 p0 pr0 where x: "x = (s0, p0, pr0)" by (metis prod_cases3)
    from s Inr x have s': "start bb (cfg\<lparr>nindep := m\<rparr>) g = Inr (s0, p0, pr0\<lparr>prog_total := ?t\<rparr>)"
      by simp
    show ?thesis
    proof (cases "burn_phase bb cfg (s0, p0, pr0)")
      case e: (Inl e)
      with b[of s0 p0 pr0] Inr x s' show ?thesis by (simp add: burn_in_def)
    next
      case r: (Inr r)
      obtain s1 p1 pr1 where r1: "r = (s1, p1, pr1)" by (metis prod_cases3)
      from b[of s0 p0 pr0] r r1 Inr x s' show ?thesis by (simp add: burn_in_def)
    qed
  qed
qed

lemma burn_in_Sampler_error:
  "Sampler bb (walkers cfg) (length (lo cfg)) (cfg_ntemps cfg) g = Inl e
   \<Longrightarrow> burn_in bb cfg g = Inl e"
  by (simp add: burn_in_def start_def Let_def)

lemma burn_in_uniform_error:
  "construct bb (walkers cfg) (length (lo cfg)) (cfg_ntemps cfg) = None
   \<Longrightarrow> uniform bb g (lo cfg) (hi cfg) (cfg_ntemps cfg, walkers cfg, length (lo cfg)) = Inl e
   \<Longrightarrow> burn_in bb cfg g = Inl e"
  by (simp add: burn_in_def start_def Let_def Sampler_def new_sampler_def)

text \<open>
  Claim C7, as amended. \<open>ez_emcee\<close> itself checks none of its arguments. \<open>nindep\<close> is
  not read before the test of the loop except for the initial progress total: another
  value of \<open>nindep\<close> changes that total and nothing else of the set-up and the burn-in,
  so a value that is not positive is never rejected. An error raised before the adaptive
  loop is one raised by the constructor of the sampler, by
  \<open>np.random.uniform(lo, hi, ...)\<close> or by the sampler during the burn-in, and it reaches
  the caller unchanged; whether bounds of different lengths or a negative \<open>nburnin\<close>
  fail is up to these collaborators. After a burn-in that raised nothing the loop is
  always entered. The claim as stated fails for \<open>nindep = 0\<close>: the call samples one
  round of 64 iterations and returns eight rows.
\<close>

theorem no_validation_before_loop:
  "burn_in bb (cfg\<lparr>nindep := m\<rparr>) g
     = map_sum id
         (\<lambda>st. st\<lparr>progress := (progress st)\<lparr>prog_total := PyInt (nburnin cfg + m * 64)\<rparr>\<rparr>)
         (burn_in bb cfg g)
   \<and> (\<forall>e. burn_in bb cfg g = Inl e
        \<longrightarrow> (Sampler bb (walkers cfg) (length (lo cfg)) (cfg_ntemps cfg) g = Inl e
             \<or> uniform bb g (lo cfg) (hi cfg) (cfg_ntemps cfg, walkers cfg, length (lo cfg)) = Inl e
             \<or> (\<exists>x. start bb cfg g = Inr x \<and> burn_phase bb cfg x = Inl e))
          \<and> ez_emcee fuel bb cfg g = Some (Inl e))
   \<and> (\<forall>st. burn_in bb cfg g = Inr st
        \<longrightarrow> loop_cond cfg st = Inr True
          \<and> loop (Suc n) bb cfg st
              = (case adaptive_round bb cfg st of
                   Inl e \<Rightarrow> Some (Inl e)
                 | Inr st' \<Rightarrow> loop n bb cfg st'))"
proof (intro conjI allI impI)
  show "burn_in bb (cfg\<lparr>nindep := m\<rparr>) g
     = map_sum id
         (\<lambda>st. st\<lparr>progress := (progress st)\<lparr>prog_total := PyInt (nburnin cfg + m * 64)\<rparr>\<rparr>)
         (burn_in bb cfg g)"
    by (rule burn_in_nindep)
next
  fix e assume e: "burn_in bb cfg g = Inl e"
  show "Sampler bb (walkers cfg) (length (lo cfg)) (cfg_ntemps cfg) g = Inl e
      \<or> uniform bb g (lo cfg) (hi cfg) (cfg_ntemps cfg, walkers cfg, length (lo cfg)) = Inl e
      \<or> (\<exists>x. start bb cfg g = Inr x \<and> burn_phase bb cfg x = Inl e)"
    using e
    by (auto simp: burn_in_def start_def Let_def Sampler_def new_sampler_def
        split: sum.splits option.splits)
  show "ez_emcee fuel bb cfg g = Some (Inl e)"
    using e by (simp add: ez_emcee_def)
next
  fix st assume b: "burn_in bb cfg g = Inr st"
  from burn_in_result[OF b] have "acl st = PyFloat NaN" by metis
  then show c: "loop_cond cfg st = Inr True" by (simp add: loop_cond_nonfinite)
  then show "loop (Suc n) bb cfg st
              = (case adaptive_round bb cfg st of
                   Inl e \<Rightarrow> Some (Inl e)
                 | Inr st' \<Rightarrow> loop n bb cfg st')"
    by simp
qed

theorem no_validation_before_loop_witness:
  "nindep cfg_zero = 0
   \<and> (\<exists>st. burn_in bb_ex cfg_ex 0 = Inr st
        \<and> burn_in bb_ex cfg_zero 0
            = Inr (st\<lparr>progress := (progress st)\<lparr>prog_total := PyInt 3\<rparr>\<rparr>)
        \<and> loop_cond cfg_ex st = Inr True)
   \<and> cfg_nwalkers cfg_odd = Some 3
   \<and> Sampler bb_ex 3 2 2 0 = Inl ValueError
   \<and> ez_emcee 2 bb_ex cfg_odd 0 = Some (Inl ValueError)
   \<and> length (lo cfg_mismatch) = 2 \<and> length (hi cfg_mismatch) = 3
   \<and> uniform bb_ex 0 (lo cfg_mismatch) (hi cfg_mismatch) (2, 2, 2) = Inl ValueError
   \<and> ez_emcee 2 bb_ex cfg_mismatch 0 = Some (Inl ValueError)"
proof -
  have c: "length (lo cfg_ex) = 2" "length (hi cfg_ex) = 2" "cfg_ntemps cfg_ex = 2"
    "cfg_nwalkers cfg_ex = Some 2" "nburnin cfg_ex = 3"
    by (simp_all add: cfg_ex_def)
  from example_first_round[OF c, of est_ex] obtain st0 where r:
    "burn_in bb_ex cfg_ex 0 = Inr st0"
    unfolding bb_ex_def by metis
  note t = no_validation_before_loop[where bb = bb_ex and g = 0]
  from t[where cfg = cfg_ex and m = 0] r c(5)
  have 1: "burn_in bb_ex cfg_zero 0
            = Inr (st0\<lparr>progress := (progress st0)\<lparr>prog_total := PyInt 3\<rparr>\<rparr>)"
    "loop_cond cfg_ex st0 = Inr True"
    by (simp_all add: cfg_zero_def)
  have wo: "walkers cfg_odd = 3" "length (lo cfg_odd) = 2" "cfg_ntemps cfg_odd = 2"
    by (simp_all add: walkers_def cfg_odd_def cfg_ex_def)
  have o: "Sampler bb_ex 3 2 2 0 = Inl ValueError" "cfg_nwalkers cfg_odd = Some 3"
    by (simp_all add: bb_ex_def bb_est_def Sampler_def cfg_odd_def)
  have "burn_in bb_ex cfg_odd 0 = Inl ValueError"
    by (rule burn_in_Sampler_error) (simp add: wo o)
  with t[where cfg = cfg_odd and fuel = 2]
  have 2: "ez_emcee 2 bb_ex cfg_odd 0 = Some (Inl ValueError)" by blast
  have wm: "walkers cfg_mismatch = 2" "length (lo cfg_mismatch) = 2" "cfg_ntemps cfg_mismatch = 2"
    "length (hi cfg_mismatch) = 3"
    by (simp_all add: walkers_def cfg_mismatch_def cfg_ex_def)
  have u: "uniform bb_ex 0 (lo cfg_mismatch) (hi cfg_mismatch) (2, 2, 2) = Inl ValueError"
    "length (lo cfg_mismatch) = 2" "length (hi cfg_mismatch) = 3"
    by (simp_all add: bb_ex_def bb_est_def wm)
  have "burn_in bb_ex cfg_mismatch 0 = Inl ValueError"
    by (rule burn_in_uniform_error) (simp_all add: wm u bb_ex_def bb_est_def)
  with t[where cfg = cfg_mismatch and fuel = 2]
  have 3: "ez_emcee 2 bb_ex cfg_mismatch 0 = Some (Inl ValueError)" by blast
  have z: "nindep cfg_zero = 0" by (simp add: cfg_zero_def)
  from z r 1 o 2 u 3 show ?thesis by blast
qed

theorem no_validation_counterexample:
  "nindep cfg_zero = 0
   \<and> map_option (map_sum id length) (ez_emcee 1 bb_ex cfg_zero 0) = Some (Inr 8)"
proof -
  have c: "length (lo cfg_zero) = 2" "length (hi cfg_zero) = 2" "cfg_ntemps cfg_zero = 2"
    "cfg_nwalkers cfg_zero = Some 2" "nburnin cfg_zero = 3" "nindep cfg_zero \<le> 4"
    by (simp_all add: cfg_zero_def cfg_ex_def)
  obtain st1 :: "nat state" where r:
    "ez_emcee 1 bb_ex cfg_zero 0 = Some (thin_and_flatten st1)"
    "acl st1 = PyInt 16" "time (sampler st1) = 64"
    "nwalkers (sampler st1) = 2" "ndim (sampler st1) = 2" "ntemps (sampler st1) = 2"
    "length (history (sampler st1)) = 64"
    by (rule example_run[OF c]) (rule that)
  have a: "acl st1 = PyInt (int 16)" using r(2) by simp
  from thin_rows[OF a] r(5,6) obtain c0 where t:
    "thin_and_flatten st1 = Inr (concat (map (every 16) c0))"
    "length (concat (map (every 16) c0))
       = nwalkers (sampler st1) * ((length (history (sampler st1)) + 16 - 1) div 16)"
    by (metis zero_less_numeral)
  from t(2) r(4,7) have "length (concat (map (every 16) c0)) = 8" by simp
  with r(1) t(1) show ?thesis by (simp add: cfg_zero_def)
qed

text \<open>
  Claim C9. When the adaptive loop exits, \<open>acl\<close> is an integer that is at least one, so
  the slice \<open>chain[0, :, ::acl, :]\<close> has a positive step and raises nothing, and it keeps
  \<open>ceil(sampler.time / acl)\<close> iterations of every walker.
\<close>

theorem thinning_stride_positive:
  assumes "burn_in bb cfg g = Inr st0" and "loop fuel bb cfg st0 = Some (Inr st)"
  shows "\<exists>k c0 rows. acl st = PyInt k \<and> 1 \<le> k
     \<and> first_row (sampler_chain (sampler st)) = Inr c0
     \<and> list_all (\<lambda>w. slice_step (acl st) w = Inr (every (nat k) w)
                    \<and> int (length (every (nat k) w))
                        = \<lceil>real (time (sampler st)) / real_of_int k\<rceil>) c0
     \<and> thin_and_flatten st = Inr rows"
proof -
  from loop_exit_facts[OF assms] obtain k where k:
    "acl st = PyInt (int k)" "0 < k"
    "0 < ntemps (sampler st)" "0 < ndim (sampler st)"
    "length (history (sampler st)) = time (sampler st)"
    by metis
  from thin_rows[OF k(1,2,3,4)] obtain c0 where c:
    "first_row (sampler_chain (sampler st)) = Inr c0"
    "thin_and_flatten st = Inr (concat (map (every k) c0))"
    "list_all (\<lambda>w. length (every k w) = (length (history (sampler st)) + k - 1) div k) c0"
    by metis
  have s: "slice_step (acl st) w = Inr (every (nat (int k)) w)" for w :: "float64 list list"
    using k(1,2) by (simp add: slice_step_def)
  have "list_all (\<lambda>w. slice_step (acl st) w = Inr (every (nat (int k)) w)
                    \<and> int (length (every (nat (int k)) w))
                        = \<lceil>real (time (sampler st)) / real_of_int (int k)\<rceil>) c0"
    using c(3) k(5) s ceil_div_nat[OF k(2), of "time (sampler st)"]
    by (simp add: list_all_iff)
  with k(1,2) c(1,2) show ?thesis
    by (intro exI[of _ "int k"] exI[of _ c0] exI[of _ "concat (map (every k) c0)"]) simp
qed

theorem thinning_stride_positive_witness:
  "\<exists>st0 st1 c0. burn_in bb_ex cfg_ex 0 = Inr st0 \<and> loop 1 bb_ex cfg_ex st0 = Some (Inr st1)
     \<and> acl st1 = PyInt 16 \<and> time (sampler st1) = 64
     \<and> first_row (sampler_chain (sampler st1)) = Inr c0
     \<and> list_all (\<lambda>w. slice_step (acl st1) w = Inr (every 16 w) \<and> length (every 16 w) = 4) c0"
proof -
  have c: "length (lo cfg_ex) = 2" "length (hi cfg_ex) = 2" "cfg_ntemps cfg_ex = 2"
    "cfg_nwalkers cfg_ex = Some 2" "nburnin cfg_ex = 3" "nindep cfg_ex \<le> 4"
    by (simp_all add: cfg_ex_def)
  from example_run[OF c] obtain st0 st1 where r:
    "burn_in bb_ex cfg_ex 0 = Inr st0"
    "loop 1 bb_ex cfg_ex st0 = Some (Inr st1)"
    "acl st1 = PyInt 16" "time (sampler st1) = 64" by metis
  from thinning_stride_positive[OF r(1,2)] obtain k c0 where f:
    "acl st1 = PyInt k"
    "first_row (sampler_chain (sampler st1)) = Inr c0"
    "list_all (\<lambda>w. slice_step (acl st1) w = Inr (every (nat k) w)
                    \<and> int (length (every (nat k) w))
                        = \<lceil>real (time (sampler st1)) / real_of_int k\<rceil>) c0"
    by blast
  from f(1) r(3) have k: "k = 16" by simp
  have "\<lceil>real 64 / real_of_int 16\<rceil> = 4" by simp
  with f(3) have "list_all (\<lambda>w. slice_step (acl st1) w = Inr (every 16 w)
      \<and> length (every 16 w) = 4) c0"
    unfolding k r(4) by (simp add: list_all_iff)
  with r f(2) show ?thesis by blast
qed

section \<open>The returned chain and the burn-in: properties\<close>

lemma example_history:
  assumes "length (lo cfg) = 2" "length (hi cfg) = 2" "cfg_nwalkers cfg = Some 2"
    "nburnin cfg = 3"
    and "burn_in (bb_est est) cfg 0 = Inr st0" and "loop fuel (bb_est est) cfg st0 = Some (Inr st)"
    and "i < time (sampler st)"
  shows "history (sampler st) ! i = (\<lambda>t w d. Fin (real (1000 * t + 100 * w + 10 * d + (3 + i))))"
proof -
  note s = start_est[OF assms(1,2,3), of est]
  from loop_history(2)[OF assms(5,6) s] assms(7) obtain gi where
    "kernel_iter (bb_est est) (nat (nburnin cfg) + Suc i) (rng (new_sampler 2 2 (cfg_ntemps cfg) 0 :: nat sampler), \<lambda>t w d. Fin 0)
       = Inr (gi, history (sampler st) ! i)" by blast
  then show ?thesis
    by (simp add: kernel_iter_est new_sampler_def assms(4))
qed

text \<open>
  Claim C2. When \<open>ez_emcee\<close> returns an array, the loop has ended with an integer
  \<open>acl = k >= 1\<close> and the sampler has retained \<open>sampler.time\<close> iterations. With
  \<open>m = ceil(sampler.time / k)\<close> the array has \<open>nwalkers * m\<close> rows, and row
  \<open>w * m + j\<close> is \<open>chain[0, w, j * k, :]\<close>: the \<open>ndim\<close> coordinates of walker \<open>w\<close> at
  the coldest temperature (index 0) in the retained iteration \<open>j * k\<close>. So every
  \<open>k\<close>-th iteration is kept, from the first one on, the walkers' rows one after the
  other; every row has \<open>ndim\<close> columns; and there are at least \<open>nindep * nwalkers\<close> rows.
\<close>

theorem ez_emcee_returns_thinned_chain:
  assumes "ez_emcee fuel bb cfg g = Some (Inr rows)"
  shows "\<exists>st0 st k m. burn_in bb cfg g = Inr st0 \<and> loop fuel bb cfg st0 = Some (Inr st)
     \<and> acl st = PyInt (int k) \<and> 0 < k
     \<and> length (history (sampler st)) = time (sampler st)
     \<and> m = (time (sampler st) + k - 1) div k
     \<and> length rows = walkers cfg * m
     \<and> (\<forall>w<walkers cfg. \<forall>j<m.
           j * k < time (sampler st)
         \<and> rows ! (w * m + j) = sampler_chain (sampler st) ! 0 ! w ! (j * k)
         \<and> rows ! (w * m + j)
             = map (\<lambda>d. (history (sampler st) ! (j * k)) 0 w d) [0..<length (lo cfg)])
     \<and> list_all (\<lambda>r. length r = length (lo cfg)) rows
     \<and> nindep cfg * int (walkers cfg) \<le> int (length rows)"
proof -
  from assms obtain st0 st where b: "burn_in bb cfg g = Inr st0"
    and l: "loop fuel bb cfg st0 = Some (Inr st)"
    and t: "thin_and_flatten st = Inr rows"
    by (auto simp: ez_emcee_def split: sum.splits option.splits)
  from loop_exit_facts[OF b l] obtain k where k:
    "acl st = PyInt (int k)" "0 < k"
    "nindep cfg * int k \<le> int (time (sampler st))"
    "0 < ntemps (sampler st)" "0 < ndim (sampler st)"
    "length (history (sampler st)) = time (sampler st)"
    "nwalkers (sampler st) = walkers cfg" "ndim (sampler st) = length (lo cfg)"
    by metis
  define m where "m = (time (sampler st) + k - 1) div k"
  from thin_rows[OF k(1,2,4,5)] obtain c0 where c:
    "thin_and_flatten st = Inr (concat (map (every k) c0))"
    "list_all (\<lambda>r. length r = ndim (sampler st)) (concat (map (every k) c0))"
    "length (concat (map (every k) c0))
       = nwalkers (sampler st) * ((length (history (sampler st)) + k - 1) div k)"
    "\<forall>w<nwalkers (sampler st). \<forall>j<(length (history (sampler st)) + k - 1) div k.
        j * k < length (history (sampler st))
      \<and> concat (map (every k) c0) ! (w * ((length (history (sampler st)) + k - 1) div k) + j)
          = sampler_chain (sampler st) ! 0 ! w ! (j * k)"
    by metis
  from t c(1) have rows: "rows = concat (map (every k) c0)" by simp
  have len: "length rows = walkers cfg * m"
    using c(3) k(6,7) rows by (simp add: m_def)
  have cols: "list_all (\<lambda>r. length r = length (lo cfg)) rows"
    using c(2) k(8) rows by simp
  have pt: "j * k < time (sampler st)
         \<and> rows ! (w * m + j) = sampler_chain (sampler st) ! 0 ! w ! (j * k)
         \<and> rows ! (w * m + j)
             = map (\<lambda>d. (history (sampler st) ! (j * k)) 0 w d) [0..<length (lo cfg)]"
    if w: "w < walkers cfg" and j: "j < m" for w j
  proof -
    from c(4) w j have 1: "j * k < time (sampler st)"
      and 2: "rows ! (w * m + j) = sampler_chain (sampler st) ! 0 ! w ! (j * k)"
      unfolding rows m_def k(6) k(7) by simp_all
    have "sampler_chain (sampler st) ! 0 ! w ! (j * k)
        = map (\<lambda>d. (history (sampler st) ! (j * k)) 0 w d) [0..<ndim (sampler st)]"
      using k(4) w 1 by (intro sampler_chain_nth) (simp_all add: k(6) k(7))
    with 1 2 show ?thesis by (simp add: k(8))
  qed
  have "nindep cfg \<le> int m"
    unfolding m_def using k(2,3) by (rule budget_met)
  then have "nindep cfg * int (walkers cfg) \<le> int m * int (walkers cfg)"
    by (rule mult_right_mono) simp
  then have bud: "nindep cfg * int (walkers cfg) \<le> int (length rows)"
    by (simp add: len mult.commute)
  from pt have pt': "\<forall>w<walkers cfg. \<forall>j<m.
           j * k < time (sampler st)
         \<and> rows ! (w * m + j) = sampler_chain (sampler st) ! 0 ! w ! (j * k)
         \<and> rows ! (w * m + j)
             = map (\<lambda>d. (history (sampler st) ! (j * k)) 0 w d) [0..<length (lo cfg)]"
    by blast
  show ?thesis
    apply (rule exI[of _ st0], rule exI[of _ st], rule exI[of _ k], rule exI[of _ m])
    by (intro conjI) (fact b l k(1) k(2) k(6) m_def len pt' cols bud)+
qed

theorem ez_emcee_returns_thinned_chain_witness:
  "ez_emcee 1 bb_ex cfg_ex 0
     = Some (Inr [[Fin 3, Fin 13], [Fin 19, Fin 29], [Fin 35, Fin 45], [Fin 51, Fin 61],
                  [Fin 103, Fin 113], [Fin 119, Fin 129], [Fin 135, Fin 145],
                  [Fin 151, Fin 161]])
   \<and> cfg_ntemps cfg_ex = 2 \<and> walkers cfg_ex = 2 \<and> length (lo cfg_ex) = 2
   \<and> nindep cfg_ex * int (walkers cfg_ex) = 8"
proof -
  have c: "length (lo cfg_ex) = 2" "length (hi cfg_ex) = 2" "cfg_ntemps cfg_ex = 2"
    "cfg_nwalkers cfg_ex = Some 2" "nburnin cfg_ex = 3" "nindep cfg_ex \<le> 4"
    by (simp_all add: cfg_ex_def)
  have wk: "walkers cfg_ex = 2" by (simp add: walkers_def cfg_ex_def)
  from example_run[OF c] obtain st0 st1 where r:
    "burn_in bb_ex cfg_ex 0 = Inr st0"
    "loop 1 bb_ex cfg_ex st0 = Some (Inr st1)"
    "ez_emcee 1 bb_ex cfg_ex 0 = Some (thin_and_flatten st1)"
    "acl st1 = PyInt 16" "time (sampler st1) = 64"
    "ndim (sampler st1) = 2" "ntemps (sampler st1) = 2" by metis
  have a: "acl st1 = PyInt (int 16)" using r(4) by simp
  from thin_rows[OF a] r(6,7) obtain rows where t: "thin_and_flatten st1 = Inr rows"
    by (metis zero_less_numeral)
  with r(3) have e: "ez_emcee 1 bb_ex cfg_ex 0 = Some (Inr rows)" by simp
  from ez_emcee_returns_thinned_chain[OF e] obtain s0 s k where f:
    "burn_in bb_ex cfg_ex 0 = Inr s0" "loop 1 bb_ex cfg_ex s0 = Some (Inr s)"
    "acl s = PyInt (int k)"
    "length rows = walkers cfg_ex * ((time (sampler s) + k - 1) div k)"
    "\<forall>w<walkers cfg_ex. \<forall>j<(time (sampler s) + k - 1) div k.
           j * k < time (sampler s)
         \<and> rows ! (w * ((time (sampler s) + k - 1) div k) + j)
             = sampler_chain (sampler s) ! 0 ! w ! (j * k)
         \<and> rows ! (w * ((time (sampler s) + k - 1) div k) + j)
             = map (\<lambda>d. (history (sampler s) ! (j * k)) 0 w d) [0..<length (lo cfg_ex)]"
    by blast
  from f(1,2) r(1,2) have s: "s = st1" by simp
  with f(3) r(4) have k: "k = 16" by simp
  have m: "(time (sampler s) + k - 1) div k = 4" by (simp add: s k r(5))
  have len: "length rows = 8" using f(4) unfolding m wk by simp
  have h: "history (sampler st1) ! i
      = (\<lambda>t w d. Fin (real (1000 * t + 100 * w + 10 * d + (3 + i))))" if "i < 64" for i
    using example_history[OF c(1,2,4,5), of est_ex st0 1 st1 i] r(1,2,5) that
    by (simp add: bb_ex_def)
  have row: "rows ! (w * 4 + j) = [Fin (real (100 * w + (3 + j * 16))),
                                    Fin (real (100 * w + (13 + j * 16)))]"
    if "w < 2" "j < 4" for w j
  proof -
    from f(5)[unfolded m wk c(1), unfolded s k] that have "rows ! (w * 4 + j)
        = map (\<lambda>d. (history (sampler st1) ! (j * 16)) 0 w d) [0..<2]"
      by blast
    moreover have "j * 16 < 64" using that(2) by simp
    ultimately show ?thesis
      by (simp add: h upt_conv_Cons numeral_2_eq_2 del: upt_Suc)
  qed
  have "rows ! 0 = [Fin 3, Fin 13]" using row[of 0 0] by simp
  moreover have "rows ! 1 = [Fin 19, Fin 29]" using row[of 0 1] by simp
  moreover have "rows ! 2 = [Fin 35, Fin 45]" using row[of 0 2] by (simp add: numeral_2_eq_2)
  moreover have "rows ! 3 = [Fin 51, Fin 61]" using row[of 0 3] by simp
  moreover have "rows ! 4 = [Fin 103, Fin 113]" using row[of 1 0] by simp
  moreover have "rows ! 5 = [Fin 119, Fin 129]" using row[of 1 1] by simp
  moreover have "rows ! 6 = [Fin 135, Fin 145]" using row[of 1 2] by simp
  moreover have "rows ! 7 = [Fin 151, Fin 161]" using row[of 1 3] by simp
  ultimately have "rows = [[Fin 3, Fin 13], [Fin 19, Fin 29], [Fin 35, Fin 45], [Fin 51, Fin 61],
                  [Fin 103, Fin 113], [Fin 119, Fin 129], [Fin 135, Fin 145],
                  [Fin 151, Fin 161]]"
    using len by (intro nth_equalityI) (auto simp: less_Suc_eq numeral_eq_Suc)
  moreover have "nindep cfg_ex = 4" by (simp add: cfg_ex_def)
  ultimately show ?thesis using e c wk by simp
qed

text \<open>
  Claim C8. The burn-in advances the ensemble by exactly \<open>nburnin\<close> iterations from the
  initial draw, one progress tick each, and retains none of them: before the reset the
  sampler has counted \<open>nburnin\<close> iterations and \<open>nburnin * nwalkers\<close> proposals per
  temperature, and its history is empty. The reset sets the iteration count to zero and
  empties the history and the acceptance counters, while the random source and the
  position reached are the ones the adaptive loop starts from. Whenever the loop ends,
  the retained history consists of the iterations
  \<open>nburnin + 1, ..., nburnin + sampler.time\<close> of the ensemble: no burn-in iteration is
  part of it.
\<close>

theorem burn_in_discarded:
  assumes "burn_in bb cfg g = Inr st0"
  shows "\<exists>s0 p0 pr0 s.
       start bb cfg g = Inr (s0, p0, pr0)
     \<and> burn_phase bb cfg (s0, p0, pr0) = Inr (s, pos st0, progress st0)
     \<and> kernel_iter bb (nat (nburnin cfg)) (rng s0, p0) = Inr (rng s, pos st0)
     \<and> time s = nat (nburnin cfg)
     \<and> prog_n (progress st0) = nat (nburnin cfg)
     \<and> history s = []
     \<and> nprop s = (\<lambda>t. nat (nburnin cfg) * walkers cfg)
     \<and> sampler st0 = reset s
     \<and> rng (sampler st0) = rng s
     \<and> time (sampler st0) = 0 \<and> history (sampler st0) = []
     \<and> nprop (sampler st0) = (\<lambda>t. 0) \<and> nprop_accepted (sampler st0) = (\<lambda>t. 0)
     \<and> (\<forall>fuel st. loop fuel bb cfg st0 = Some (Inr st) \<longrightarrow>
           length (history (sampler st)) = time (sampler st)
         \<and> (\<forall>i<time (sampler st). \<exists>gi.
               kernel_iter bb (nat (nburnin cfg) + Suc i) (rng s0, p0)
                 = Inr (gi, history (sampler st) ! i))
         \<and> kernel_iter bb (nat (nburnin cfg) + time (sampler st)) (rng s0, p0)
             = Inr (rng (sampler st), pos st))"
proof -
  from burn_in_result[OF assms] obtain s0 p0 pr0 s where r:
    "start bb cfg g = Inr (s0, p0, pr0)"
    "burn_phase bb cfg (s0, p0, pr0) = Inr (s, pos st0, progress st0)"
    "sampler st0 = reset s"
    "kernel_iter bb (nat (nburnin cfg)) (rng s0, p0) = Inr (rng s, pos st0)"
    "time s = nat (nburnin cfg)" "history s = []"
    "nprop s = (\<lambda>t. nat (nburnin cfg) * walkers cfg)"
    "prog_n (progress st0) = nat (nburnin cfg)"
    by metis
  have rs: "rng (sampler st0) = rng s" "time (sampler st0) = 0" "history (sampler st0) = []"
    "nprop (sampler st0) = (\<lambda>t. 0)" "nprop_accepted (sampler st0) = (\<lambda>t. 0)"
    by (simp_all add: r(3) reset_def)
  have lp: "\<forall>fuel st. loop fuel bb cfg st0 = Some (Inr st) \<longrightarrow>
           length (history (sampler st)) = time (sampler st)
         \<and> (\<forall>i<time (sampler st). \<exists>gi.
               kernel_iter bb (nat (nburnin cfg) + Suc i) (rng s0, p0)
                 = Inr (gi, history (sampler st) ! i))
         \<and> kernel_iter bb (nat (nburnin cfg) + time (sampler st)) (rng s0, p0)
             = Inr (rng (sampler st), pos st)"
    using loop_history[OF assms _ r(1)] by blast
  show ?thesis
    apply (rule exI[of _ s0], rule exI[of _ p0], rule exI[of _ pr0], rule exI[of _ s])
    using r rs lp by simp
qed

theorem burn_in_discarded_witness:
  "\<exists>st0 s st1. burn_in bb_ex cfg_ex 0 = Inr st0
     \<and> burn_phase bb_ex cfg_ex (new_sampler 2 2 2 0, (\<lambda>t w d. Fin 0), tqdm (PyInt 259))
         = Inr (s, pos st0, progress st0)
     \<and> rng s = 3 \<and> time s = 3 \<and> history s = [] \<and> nprop s 0 = 6
     \<and> pos st0 = (\<lambda>t w d. Fin (real (1000 * t + 100 * w + 10 * d + 2)))
     \<and> prog_n (progress st0) = 3
     \<and> sampler st0 = reset s \<and> rng (sampler st0) = 3
     \<and> time (sampler st0) = 0 \<and> history (sampler st0) = [] \<and> nprop (sampler st0) 0 = 0
     \<and> loop 1 bb_ex cfg_ex st0 = Some (Inr st1) \<and> length (history (sampler st1)) = 64
     \<and> (history (sampler st1) ! 0) 0 0 0 = Fin 3
     \<and> (history (sampler st1) ! 63) 0 1 1 = Fin 176"
proof -
  have c: "length (lo cfg_ex) = 2" "length (hi cfg_ex) = 2" "cfg_ntemps cfg_ex = 2"
    "cfg_nwalkers cfg_ex = Some 2" "nburnin cfg_ex = 3" "nindep cfg_ex \<le> 4"
    by (simp_all add: cfg_ex_def)
  have wk: "walkers cfg_ex = 2" by (simp add: walkers_def cfg_ex_def)
  have ni: "nindep cfg_ex = 4" by (simp add: cfg_ex_def)
  from example_run[OF c] obtain st0 st1 where r:
    "burn_in bb_ex cfg_ex 0 = Inr st0"
    "loop 1 bb_ex cfg_ex st0 = Some (Inr st1)"
    "time (sampler st1) = 64" by metis
  have se: "start bb_ex cfg_ex 0
      = Inr (new_sampler 2 2 2 0, (\<lambda>t w d. Fin 0), tqdm (PyInt 259))"
    unfolding bb_ex_def using start_est[OF c(1,2,4), of est_ex] by (simp add: c ni)
  from burn_in_discarded[OF r(1)] obtain s0 p0 pr0 s where f:
    "start bb_ex cfg_ex 0 = Inr (s0, p0, pr0)"
    "burn_phase bb_ex cfg_ex (s0, p0, pr0) = Inr (s, pos st0, progress st0)"
    "kernel_iter bb_ex (nat (nburnin cfg_ex)) (rng s0, p0) = Inr (rng s, pos st0)"
    "time s = nat (nburnin cfg_ex)"
    "prog_n (progress st0) = nat (nburnin cfg_ex)"
    "history s = []"
    "nprop s = (\<lambda>t. nat (nburnin cfg_ex) * walkers cfg_ex)"
    "sampler st0 = reset s"
    "rng (sampler st0) = rng s"
    "time (sampler st0) = 0" "history (sampler st0) = []"
    "nprop (sampler st0) = (\<lambda>t. 0)"
    "\<forall>fuel st. loop fuel bb_ex cfg_ex st0 = Some (Inr st) \<longrightarrow>
           length (history (sampler st)) = time (sampler st)
         \<and> (\<forall>i<time (sampler st). \<exists>gi.
               kernel_iter bb_ex (nat (nburnin cfg_ex) + Suc i) (rng s0, p0)
                 = Inr (gi, history (sampler st) ! i))
         \<and> kernel_iter bb_ex (nat (nburnin cfg_ex) + time (sampler st)) (rng s0, p0)
             = Inr (rng (sampler st), pos st)"
    by blast
  from f(1) se have s0: "s0 = new_sampler 2 2 2 0" "p0 = (\<lambda>t w d. Fin 0)"
    "pr0 = tqdm (PyInt 259)" by simp_all
  have g0: "rng s0 = 0" by (simp add: s0 new_sampler_def)
  from f(3) have k3: "rng s = 3"
    "pos st0 = (\<lambda>t w d. Fin (real (1000 * t + 100 * w + 10 * d + 2)))"
    unfolding g0 bb_ex_def kernel_iter_est by (simp_all add: c(5))
  from f(13) r(2) have l: "length (history (sampler st1)) = 64"
    and hh: "\<forall>i<64. \<exists>gi.
               kernel_iter bb_ex (nat (nburnin cfg_ex) + Suc i) (rng s0, p0)
                 = Inr (gi, history (sampler st1) ! i)"
    unfolding r(3)[symmetric] by blast+
  have h: "history (sampler st1) ! i
      = (\<lambda>t w d. Fin (real (1000 * t + 100 * w + 10 * d + (3 + i))))" if "i < 64" for i
  proof -
    from hh that obtain gi where
      "kernel_iter bb_ex (nat (nburnin cfg_ex) + Suc i) (rng s0, p0)
         = Inr (gi, history (sampler st1) ! i)" by blast
    then show ?thesis
      unfolding g0 bb_ex_def kernel_iter_est by (simp add: c(5))
  qed
  have h0: "(history (sampler st1) ! 0) 0 0 0 = Fin 3" by (simp add: h)
  have h63: "(history (sampler st1) ! 63) 0 1 1 = Fin 176" by (simp add: h)
  have b: "burn_phase bb_ex cfg_ex (new_sampler 2 2 2 0, (\<lambda>t w d. Fin 0), tqdm (PyInt 259))
         = Inr (s, pos st0, progress st0)"
    using f(2) by (simp add: s0)
  have t3: "time s = 3" "prog_n (progress st0) = 3" "nprop s 0 = 6"
    using f(4,5,7) by (simp_all add: c(5) wk)
  have r3: "rng (sampler st0) = 3" "nprop (sampler st0) 0 = 0"
    using f(9,12) k3(1) by simp_all
  show ?thesis
    apply (rule exI[of _ st0], rule exI[of _ s], rule exI[of _ st1])
    using r(1,2) b k3 t3 f(6,8,10,11) r3 l h0 h63 by simp
qed

end
